theory Spec2Isabelle
  imports Complex_Main "HOL-Library.Sublist"
begin

section \<open>Python strings\<close>

text \<open>
  A Python \<open>str\<close> is modelled as a \<open>string\<close>, each \<open>char\<close> standing for one code
  point below 256 (the Latin-1 range). On that range the model of \<open>str.lower\<close> below
  agrees with Python's: the ASCII capitals and the capitals U+00C0..U+00DE (except the
  multiplication sign U+00D7) move up by 32, every other code point stays.
\<close>

definition is_ascii_upper :: "char \<Rightarrow> bool" where
  "is_ascii_upper c = (65 \<le> (of_char c :: nat) \<and> (of_char c :: nat) \<le> 90)"

definition is_latin1_upper :: "char \<Rightarrow> bool" where
  "is_latin1_upper c =
     (192 \<le> (of_char c :: nat) \<and> (of_char c :: nat) \<le> 222 \<and> (of_char c :: nat) \<noteq> 215)"

definition lower_char :: "char \<Rightarrow> char" where
  "lower_char c =
     (if is_ascii_upper c \<or> is_latin1_upper c then char_of ((of_char c :: nat) + 32) else c)"

definition lower :: "string \<Rightarrow> string" where
  "lower s = map lower_char s"

text \<open>\<open>needle in hay\<close> on strings: \<open>needle\<close> occurs as a contiguous substring.\<close>

fun str_in :: "string \<Rightarrow> string \<Rightarrow> bool" where
  "str_in needle [] = (needle = [])"
| "str_in needle (c # cs) = (prefix needle (c # cs) \<or> str_in needle cs)"

definition startswith :: "string \<Rightarrow> string \<Rightarrow> bool" where
  "startswith s p = prefix p s"

section \<open>Scenario data model (scenarios.py)\<close>

text \<open>
  JSON-like values: what a dictionary produced by \<open>to_dict\<close> or read from a scenario
  file holds. A \<open>dict\<close> is an association list read with \<open>map_of\<close>.
\<close>

datatype pyval =
    PNone
  | PBool bool
  | PInt int
  | PStr string
  | PList "pyval list"
  | PDict "(string \<times> pyval) list"

type_synonym pydict = "(string \<times> pyval) list"

text \<open>
  Field names are the source's. Where two dataclasses share a field name the later
  record prefixes it (\<open>scenario_name\<close>, \<open>result_status\<close>, ...), and \<open>TestStep.value\<close>
  is \<open>step_value\<close>.
\<close>

record TestStep =
  name :: string
  action :: string
  target :: string
  step_value :: "string option"
  timeout :: "int option"
  critical :: bool
  screenshot_on_failure :: bool
  retry_count :: int
  description :: string
  expected :: pyval

record StepResult =
  step :: TestStep
  status :: string
  message :: string
  screenshot :: string
  start_time :: "int option"
  end_time :: "int option"
  duration :: rat
  actual_value :: pyval
  error_trace :: string

record TestScenario =
  scenario_name :: string
  scenario_description :: string
  steps :: "TestStep list"
  setup_steps :: "TestStep list"
  teardown_steps :: "TestStep list"
  tags :: "string list"
  priority :: int
  scenario_timeout :: int
  data :: pydict

record TestResult =
  scenario :: TestScenario
  result_status :: string
  step_results :: "StepResult list"
  result_start_time :: "int option"
  result_end_time :: "int option"
  result_duration :: rat
  error_message :: string

record TestSuite =
  suite_name :: string
  suite_description :: string
  scenarios :: "TestScenario list"
  parallel :: bool
  stop_on_failure :: bool
  suite_tags :: "string list"

text \<open>
  Errors of (de)serialisation. \<open>TypeError\<close> and \<open>KeyError\<close> are the exceptions Python
  raises. \<open>IllTyped k\<close> is not an exception: Python's dataclass constructor stores any
  value, so a dictionary whose entry \<open>k\<close> does not have the annotated type yields an
  object outside the record types above; the model reports it instead of a record.
\<close>

datatype error = TypeError string | KeyError string | IllTyped string

subsection \<open>Typed reads of dictionary entries\<close>

definition opt_str :: "pyval \<Rightarrow> string option option" where
  "opt_str v = (case v of PNone \<Rightarrow> Some None | PStr s \<Rightarrow> Some (Some s) | _ \<Rightarrow> None)"

definition opt_int :: "pyval \<Rightarrow> int option option" where
  "opt_int v = (case v of PNone \<Rightarrow> Some None | PInt i \<Rightarrow> Some (Some i) | _ \<Rightarrow> None)"

definition as_str :: "pyval \<Rightarrow> string option" where
  "as_str v = (case v of PStr s \<Rightarrow> Some s | _ \<Rightarrow> None)"

definition as_int :: "pyval \<Rightarrow> int option" where
  "as_int v = (case v of PInt i \<Rightarrow> Some i | _ \<Rightarrow> None)"

definition as_bool :: "pyval \<Rightarrow> bool option" where
  "as_bool v = (case v of PBool b \<Rightarrow> Some b | _ \<Rightarrow> None)"

fun as_str_list :: "pyval list \<Rightarrow> string list option" where
  "as_str_list [] = Some []"
| "as_str_list (v # vs) =
     (case as_str v of None \<Rightarrow> None
      | Some s \<Rightarrow> (case as_str_list vs of None \<Rightarrow> None | Some ss \<Rightarrow> Some (s # ss)))"

text \<open>
  \<open>field d k dflt rd\<close>: the keyword argument \<open>k\<close> of a constructor call \<open>cls(**d)\<close>, or
  \<open>d.get(k, dflt)\<close>: the default when the key is absent, the typed read otherwise.
\<close>

definition field :: "pydict \<Rightarrow> string \<Rightarrow> 'a \<Rightarrow> (pyval \<Rightarrow> 'a option) \<Rightarrow> error + 'a" where
  "field d k dflt rd =
     (case map_of d k of
        None \<Rightarrow> Inr dflt
      | Some v \<Rightarrow> (case rd v of None \<Rightarrow> Inl (IllTyped k) | Some x \<Rightarrow> Inr x))"

definition bind :: "error + 'a \<Rightarrow> ('a \<Rightarrow> error + 'b) \<Rightarrow> error + 'b" where
  "bind m f = (case m of Inl e \<Rightarrow> Inl e | Inr x \<Rightarrow> f x)"

subsection \<open>TestStep.to_dict and TestStep.from_dict\<close>

definition opt_str_val :: "string option \<Rightarrow> pyval" where
  "opt_str_val v = (case v of None \<Rightarrow> PNone | Some s \<Rightarrow> PStr s)"

definition opt_int_val :: "int option \<Rightarrow> pyval" where
  "opt_int_val v = (case v of None \<Rightarrow> PNone | Some i \<Rightarrow> PInt i)"

definition step_to_dict :: "TestStep \<Rightarrow> pydict" where
  "step_to_dict s =
     [(''name'', PStr (name s)),
      (''action'', PStr (action s)),
      (''target'', PStr (target s)),
      (''value'', opt_str_val (step_value s)),
      (''timeout'', opt_int_val (timeout s)),
      (''critical'', PBool (critical s)),
      (''description'', PStr (description s))]"

definition step_fields :: "string list" where
  "step_fields = [''name'', ''action'', ''target'', ''value'', ''timeout'', ''critical'',
     ''screenshot_on_failure'', ''retry_count'', ''description'', ''expected'']"

text \<open>
  \<open>cls(**data)\<close>: a key that is no field, or a missing \<open>name\<close> or \<open>action\<close>, raises
  \<open>TypeError\<close>; the other fields take the dataclass defaults when absent.
\<close>

definition step_from_dict :: "pydict \<Rightarrow> error + TestStep" where
  "step_from_dict d =
     (if \<not> set (map fst d) \<subseteq> set step_fields
        then Inl (TypeError ''unexpected keyword argument'')
      else if map_of d ''name'' = None \<or> map_of d ''action'' = None
        then Inl (TypeError ''missing required positional argument'')
      else
        bind (field d ''name'' [] as_str) (\<lambda>n.
        bind (field d ''action'' [] as_str) (\<lambda>a.
        bind (field d ''target'' [] as_str) (\<lambda>t.
        bind (field d ''value'' None opt_str) (\<lambda>v.
        bind (field d ''timeout'' None opt_int) (\<lambda>tm.
        bind (field d ''critical'' False as_bool) (\<lambda>c.
        bind (field d ''screenshot_on_failure'' True as_bool) (\<lambda>sf.
        bind (field d ''retry_count'' 0 as_int) (\<lambda>rc.
        bind (field d ''description'' [] as_str) (\<lambda>ds.
        bind (field d ''expected'' PNone Some) (\<lambda>ex.
          Inr \<lparr>name = n, action = a, target = t, step_value = v, timeout = tm,
               critical = c, screenshot_on_failure = sf, retry_count = rc,
               description = ds, expected = ex\<rparr>)))))))))))"

subsection \<open>TestScenario.to_dict and TestScenario.from_dict\<close>

definition scenario_to_dict :: "TestScenario \<Rightarrow> pydict" where
  "scenario_to_dict sc =
     [(''name'', PStr (scenario_name sc)),
      (''description'', PStr (scenario_description sc)),
      (''steps'', PList (map (\<lambda>s. PDict (step_to_dict s)) (steps sc))),
      (''setup_steps'', PList (map (\<lambda>s. PDict (step_to_dict s)) (setup_steps sc))),
      (''teardown_steps'', PList (map (\<lambda>s. PDict (step_to_dict s)) (teardown_steps sc))),
      (''tags'', PList (map PStr (tags sc))),
      (''priority'', PInt (priority sc))]"

text \<open>
  \<open>[TestStep.from_dict(s) for s in xs]\<close>. The first element that raises ends the
  comprehension with its exception; an element that is merely ill-typed does not.
\<close>

definition is_raise :: "error \<Rightarrow> bool" where
  "is_raise e = (case e of IllTyped _ \<Rightarrow> False | _ \<Rightarrow> True)"

fun steps_from_list :: "pyval list \<Rightarrow> error + TestStep list" where
  "steps_from_list [] = Inr []"
| "steps_from_list (v # vs) =
     (case v of
        PDict d \<Rightarrow>
          (case step_from_dict d of
             Inl e \<Rightarrow>
               (if is_raise e then Inl e
                else (case steps_from_list vs of
                        Inl e' \<Rightarrow> if is_raise e' then Inl e' else Inl e
                      | Inr _ \<Rightarrow> Inl e))
           | Inr s \<Rightarrow> bind (steps_from_list vs) (\<lambda>ss. Inr (s # ss)))
      | _ \<Rightarrow> Inl (TypeError ''argument after ** must be a mapping''))"

text \<open>
  \<open>data.get(k, [])\<close> as the iterable of the comprehension: a list gives its elements; a
  string gives its characters and a dictionary its keys, none of which is a mapping, so
  only the empty ones pass; any other value is not iterable.
\<close>

definition as_steps :: "pydict \<Rightarrow> string \<Rightarrow> error + TestStep list" where
  "as_steps d k =
     (case map_of d k of
        None \<Rightarrow> Inr []
      | Some (PList vs) \<Rightarrow> steps_from_list vs
      | Some (PStr s) \<Rightarrow>
          if s = [] then Inr [] else Inl (TypeError ''argument after ** must be a mapping'')
      | Some (PDict kv) \<Rightarrow>
          if kv = [] then Inr [] else Inl (TypeError ''argument after ** must be a mapping'')
      | Some _ \<Rightarrow> Inl (TypeError ''object is not iterable''))"

definition as_tags :: "pyval \<Rightarrow> string list option" where
  "as_tags v = (case v of PList vs \<Rightarrow> as_str_list vs | _ \<Rightarrow> None)"

text \<open>The first exception among the three step lists, in the order they are built.\<close>

fun first_raise :: "(error + 'a) list \<Rightarrow> error option" where
  "first_raise [] = None"
| "first_raise (Inl e # rs) = (if is_raise e then Some e else first_raise rs)"
| "first_raise (Inr _ # rs) = first_raise rs"

definition scenario_from_dict :: "pydict \<Rightarrow> error + TestScenario" where
  "scenario_from_dict d =
     (case map_of d ''name'' of
        None \<Rightarrow> Inl (KeyError ''name'')
      | Some nv \<Rightarrow>
        (case first_raise
                [as_steps d ''steps'', as_steps d ''setup_steps'', as_steps d ''teardown_steps''] of
           Some e \<Rightarrow> Inl e
         | None \<Rightarrow>
            bind (case as_str nv of None \<Rightarrow> Inl (IllTyped ''name'') | Some n \<Rightarrow> Inr n) (\<lambda>n.
            bind (field d ''description'' [] as_str) (\<lambda>ds.
            bind (as_steps d ''steps'') (\<lambda>st.
            bind (as_steps d ''setup_steps'') (\<lambda>su.
            bind (as_steps d ''teardown_steps'') (\<lambda>td.
            bind (field d ''tags'' [] as_tags) (\<lambda>tg.
            bind (field d ''priority'' 5 as_int) (\<lambda>pr.
              Inr \<lparr>scenario_name = n, scenario_description = ds, steps = st,
                   setup_steps = su, teardown_steps = td, tags = tg, priority = pr,
                   scenario_timeout = 300000, data = []\<rparr>)))))))))"

text \<open>What a round trip through the dictionary keeps of a step and of a scenario.\<close>

definition step_defaults :: "TestStep \<Rightarrow> TestStep" where
  "step_defaults s = s\<lparr>screenshot_on_failure := True, retry_count := 0, expected := PNone\<rparr>"

definition scenario_defaults :: "TestScenario \<Rightarrow> TestScenario" where
  "scenario_defaults sc =
     sc\<lparr>steps := map step_defaults (steps sc),
        setup_steps := map step_defaults (setup_steps sc),
        teardown_steps := map step_defaults (teardown_steps sc),
        scenario_timeout := 300000, data := []\<rparr>"

section \<open>The automation collaborator and the host (agent.py)\<close>

text \<open>
  Everything outside the program is a deterministic function of the history of the
  program's interactions so far: the clock, the session to the browser-automation
  server, the file system, the standard output. The history is a list of events,
  extended by every interaction. A raised \<open>Exception\<close> is represented by its message
  \<open>str(e)\<close>; signals outside the \<open>Exception\<close> class (interrupts, task cancellation) are
  not modelled.
\<close>

type_synonym exn = string

text \<open>
  The content parts of a tool result: a part with a \<open>text\<close> attribute, a part with a
  \<open>data\<close> attribute (and possibly a \<open>mimeType\<close>), and a part with neither.
\<close>

datatype content = TextContent string | ImageContent string "string option" | EmbeddedResource

record CallToolResult =
  result_content :: "content list"
  isError :: bool

datatype argval = ANone | AInt int | AStr string

type_synonym arguments = "(string \<times> argval) list"

datatype event =
    Clock
  | Open
  | Close
  | Call string arguments
  | Write string string
  | Report
  | Log string string

record env =
  clock :: "event list \<Rightarrow> int"
  strftime :: "int \<Rightarrow> string"
  connect :: "event list \<Rightarrow> exn option"
  disconnect :: "event list \<Rightarrow> exn option"
  respond :: "event list \<Rightarrow> string \<Rightarrow> arguments \<Rightarrow> exn + CallToolResult"
  write_png :: "event list \<Rightarrow> string \<Rightarrow> string \<Rightarrow> exn option"
  generate_report :: "event list \<Rightarrow> TestSuite \<Rightarrow> TestResult list \<Rightarrow> exn + string"
  print_line :: "event list \<Rightarrow> string \<Rightarrow> string \<Rightarrow> exn option"
  format_2f :: "rat \<Rightarrow> string"

text \<open>
  \<open>clock\<close> is \<open>datetime.now()\<close> in microseconds, \<open>strftime\<close> its rendering with the
  format \<open>%Y%m%d_%H%M%S\<close>; \<open>connect\<close> is entering \<open>_get_session\<close> (spawning the
  server, opening the client session, \<open>initialize\<close>) and \<open>disconnect\<close> leaving it;
  \<open>respond\<close> is \<open>session.call_tool\<close>; \<open>write_png\<close> is opening the file, decoding the
  base64 data and writing it; \<open>generate_report\<close> is the reporter. \<open>print_line\<close> is the
  body of \<open>log\<close> in verbose mode, for a level and a message: stamping the time and
  printing the line \<open>[HH:MM:SS] [level] message\<close>, which raises when the standard output
  cannot take it. \<open>format_2f\<close> renders a float with the format \<open>.2f\<close>.
\<close>

text \<open>
  The configuration without \<open>retry_delay\<close> (a float that no method reads), and the agent
  without its \<open>assertions\<close> and \<open>reporter\<close> members: the reporter is part of the
  environment, and the step executor does not use the assertion object.
\<close>

record AgentConfig =
  server_command :: string
  server_script :: string
  screenshot_dir :: string
  report_dir :: string
  default_timeout :: int
  retry_attempts :: int
  verbose :: bool

record QATestingAgent =
  config :: AgentConfig
  current_url :: string
  test_results :: "TestResult list"

definition now :: "env \<Rightarrow> event list \<Rightarrow> int \<times> event list" where
  "now E tr = (clock E tr, tr @ [Clock])"

subsection \<open>log\<close>

text \<open>
  \<open>self.log(message, level)\<close>: nothing unless \<open>verbose\<close>; otherwise the line is printed,
  and the exception returned if printing raises. The call is recorded in the history
  either way.
\<close>

definition log ::
  "env \<Rightarrow> QATestingAgent \<Rightarrow> string \<Rightarrow> string \<Rightarrow> event list \<Rightarrow> exn option \<times> event list" where
  "log E ag msg level tr =
     (if verbose (config ag) then (print_line E tr level msg, tr @ [Log level msg])
      else (None, tr))"

text \<open>Consecutive \<open>self.log\<close> calls, given as (message, level): the first that raises ends them.\<close>

fun logs ::
  "env \<Rightarrow> QATestingAgent \<Rightarrow> (string \<times> string) list \<Rightarrow> event list \<Rightarrow> exn option \<times> event list" where
  "logs E ag [] tr = (None, tr)"
| "logs E ag ((msg, level) # ms) tr =
     (case log E ag msg level tr of
        (Some e, tr') \<Rightarrow> (Some e, tr')
      | (None, tr') \<Rightarrow> logs E ag ms tr')"

text \<open>
  What the f-strings of the log messages need: \<open>str\<close> of a natural number and of a
  truth value, a value between single quotes, the newline, and \<open>str.upper\<close>, which the
  source applies to a scenario status only (the model maps the ASCII letters).
\<close>

definition digit_char :: "nat \<Rightarrow> char" where
  "digit_char n = char_of (48 + n)"

fun str_nat :: "nat \<Rightarrow> string" where
  "str_nat n = (if n < 10 then [digit_char n] else str_nat (n div 10) @ [digit_char (n mod 10)])"

definition str_bool :: "bool \<Rightarrow> string" where
  "str_bool b = (if b then ''True'' else ''False'')"

definition quoted :: "string \<Rightarrow> string" where
  "quoted s = [CHR 0x27] @ s @ [CHR 0x27]"

definition newline :: char where
  "newline = CHR 0x0A"

definition upper_char :: "char \<Rightarrow> char" where
  "upper_char c =
     (if 97 \<le> (of_char c :: nat) \<and> (of_char c :: nat) \<le> 122
      then char_of ((of_char c :: nat) - 32) else c)"

definition upper :: "string \<Rightarrow> string" where
  "upper s = map upper_char s"

subsection \<open>_call_tool_in_session\<close>

datatype item = TextItem string | ImageItem string string

record response =
  success :: bool
  content :: "item list"
  error :: "string option"

fun collect :: "content list \<Rightarrow> response \<Rightarrow> response" where
  "collect [] r = r"
| "collect (TextContent t # cs) r =
     collect cs
       (if str_in ''Error:'' t
        then r\<lparr>success := False, content := content r @ [TextItem t], error := Some t\<rparr>
        else r\<lparr>content := content r @ [TextItem t]\<rparr>)"
| "collect (ImageContent d m # cs) r =
     collect cs
       (r\<lparr>content := content r @
            [ImageItem d (case m of None \<Rightarrow> ''image/png'' | Some x \<Rightarrow> x)]\<rparr>)"
| "collect (EmbeddedResource # cs) r = collect cs r"

definition call_tool_in_session ::
  "env \<Rightarrow> string \<Rightarrow> arguments \<Rightarrow> event list \<Rightarrow> (exn + response) \<times> event list" where
  "call_tool_in_session E nm args tr =
     (case respond E tr nm args of
        Inl e \<Rightarrow> (Inl e, tr @ [Call nm args])
      | Inr result \<Rightarrow>
          (Inr (collect (result_content result) \<lparr>success = True, content = [], error = None\<rparr>),
           tr @ [Call nm args]))"

subsection \<open>_save_screenshot\<close>

text \<open>\<open>os.path.join\<close> of two components (POSIX).\<close>

definition path_join :: "string \<Rightarrow> string \<Rightarrow> string" where
  "path_join a p =
     (if startswith p ''/'' then p
      else if a = [] \<or> suffix ''/'' a then a @ p
      else a @ ''/'' @ p)"

definition save_screenshot ::
  "env \<Rightarrow> AgentConfig \<Rightarrow> string \<Rightarrow> string \<Rightarrow> event list \<Rightarrow> (exn + string) \<times> event list" where
  "save_screenshot E cfg dat nm tr =
     (case now E tr of (t, tr1) \<Rightarrow>
        let filename = nm @ ''_'' @ strftime E t @ ''.png'';
            filepath = path_join (screenshot_dir cfg) filename
        in (case write_png E tr1 filepath dat of
              Some e \<Rightarrow> (Inl e, tr1 @ [Write filepath dat])
            | None \<Rightarrow> (Inr filepath, tr1 @ [Write filepath dat])))"

subsection \<open>run_step_in_session\<close>

text \<open>
  The state threaded through the \<open>try\<close> block of a step: the result object being
  filled in, the agent, and the history.
\<close>

type_synonym sstate = "StepResult \<times> QATestingAgent \<times> event list"

text \<open>Python's \<open>x or d\<close> on an optional string and on an optional integer.\<close>

definition or_str :: "string option \<Rightarrow> string \<Rightarrow> string" where
  "or_str v d = (case v of None \<Rightarrow> d | Some s \<Rightarrow> if s = [] then d else s)"

definition or_int :: "int option \<Rightarrow> int \<Rightarrow> int" where
  "or_int v d = (case v of None \<Rightarrow> d | Some i \<Rightarrow> if i = 0 then d else i)"

text \<open>The literal dictionaries \<open>{"success": b}\<close> and \<open>{"success": False, "error": m}\<close>.\<close>

definition verdict :: "bool \<Rightarrow> response" where
  "verdict b = \<lparr>success = b, content = [], error = None\<rparr>"

definition failure :: "string \<Rightarrow> response" where
  "failure m = \<lparr>success = False, content = [], error = Some m\<rparr>"

text \<open>\<open>content.get("text", "")\<close> of a normalized content part.\<close>

definition item_text :: "item \<Rightarrow> string" where
  "item_text c = (case c of TextItem t \<Rightarrow> t | ImageItem _ _ \<Rightarrow> [])"

text \<open>The \<open>data\<close> of the first part whose type is \<open>image\<close> (the loop with \<open>break\<close>).\<close>

fun first_image :: "item list \<Rightarrow> string option" where
  "first_image [] = None"
| "first_image (TextItem _ # cs) = first_image cs"
| "first_image (ImageItem d _ # cs) = Some d"

text \<open>
  The fragment that occurs twice in the source, in the \<open>screenshot\<close> branch and after a
  failed step: on a successful screenshot response, save the first image, log its path
  and record the path on the result.
\<close>

definition save_first_image ::
  "env \<Rightarrow> string \<Rightarrow> response \<Rightarrow> sstate \<Rightarrow> exn option \<times> sstate" where
  "save_first_image E nm r s =
     (case s of (res, ag, tr) \<Rightarrow>
        if success r then
          (case first_image (content r) of
             None \<Rightarrow> (None, s)
           | Some d \<Rightarrow>
               (case save_screenshot E (config ag) d nm tr of
                  (Inl e, tr') \<Rightarrow> (Some e, (res, ag, tr'))
                | (Inr p, tr') \<Rightarrow>
                    (case log E ag (''Screenshot saved: '' @ p) ''INFO'' tr' of
                       (Some e, tr'') \<Rightarrow> (Some e, (res, ag, tr''))
                     | (None, tr'') \<Rightarrow> (None, (res\<lparr>screenshot := p\<rparr>, ag, tr'')))))
        else (None, s))"

text \<open>
  \<open>re.search(r"<title>(.*?)</title>", html, re.IGNORECASE)\<close>: the leftmost position
  where \<open><title>\<close> occurs and is followed, with no newline in between, by \<open></title>\<close>;
  the group is the shortest such stretch.
\<close>

definition prefix_ci :: "string \<Rightarrow> string \<Rightarrow> bool" where
  "prefix_ci p s = prefix (lower p) (lower s)"

fun title_end :: "string \<Rightarrow> string \<Rightarrow> string option" where
  "title_end acc [] = None"
| "title_end acc (c # cs) =
     (if prefix_ci ''</title>'' (c # cs) then Some acc
      else if c = CHR 0x0A then None
      else title_end (acc @ [c]) cs)"

fun title_search :: "string \<Rightarrow> string option" where
  "title_search [] = None"
| "title_search (c # cs) =
     (if prefix_ci ''<title>'' (c # cs)
      then (case title_end [] (drop 7 (c # cs)) of
              Some t \<Rightarrow> Some t
            | None \<Rightarrow> title_search cs)
      else title_search cs)"

definition selector_matches_html :: "string \<Rightarrow> string \<Rightarrow> bool" where
  "selector_matches_html selector html =
     (if startswith selector ''#''
        then str_in (''id=\"'' @ drop 1 selector @ ''\"'') html
           \<or> str_in (''id='' @ [CHR 0x27] @ drop 1 selector @ [CHR 0x27]) html
      else if startswith selector ''.''
        then str_in ''class=\"'' html \<and> str_in (drop 1 selector) html
      else str_in (''<'' @ selector) (lower html))"

text \<open>
  Lifting a tool call into the state of the \<open>try\<close> block: the call only extends the
  history.
\<close>

definition in_step :: "(exn + response) \<times> event list \<Rightarrow> sstate \<Rightarrow> (exn + response) \<times> sstate" where
  "in_step c s = (case c of (r, tr') \<Rightarrow> (case s of (res, ag, tr) \<Rightarrow> (r, (res, ag, tr'))))"

text \<open>
  The end of an assertion branch: the outcome is logged, then bound to
  \<open>action_result\<close> as \<open>{"success": passed}\<close>.
\<close>

definition asserted :: "env \<Rightarrow> string \<Rightarrow> bool \<Rightarrow> sstate \<Rightarrow> (exn + response) \<times> sstate" where
  "asserted E msg passed s =
     (case s of (res, ag, tr) \<Rightarrow>
        (case log E ag (msg @ str_bool passed) ''INFO'' tr of
           (Some e, tr') \<Rightarrow> (Inl e, (res, ag, tr'))
         | (None, tr') \<Rightarrow> (Inr (verdict passed), (res, ag, tr'))))"

text \<open>
  The dispatch on \<open>step.action\<close>: the \<open>if\<close>/\<open>elif\<close> chain up to the binding of
  \<open>action_result\<close>. \<open>Inl e\<close> is an exception raised on the way.
\<close>

definition dispatch :: "env \<Rightarrow> TestStep \<Rightarrow> sstate \<Rightarrow> (exn + response) \<times> sstate" where
  "dispatch E st s =
     (case s of (res, ag, tr) \<Rightarrow>
      if action st = ''navigate'' then
        (case call_tool_in_session E ''browser_navigate'' [(''url'', AStr (target st))] tr of
           (Inl e, tr') \<Rightarrow> (Inl e, (res, ag, tr'))
         | (Inr r, tr') \<Rightarrow>
             (Inr r, (res, if success r then ag\<lparr>current_url := target st\<rparr> else ag, tr')))
      else if action st = ''click'' then
        in_step (call_tool_in_session E ''browser_click'' [(''selector'', AStr (target st))] tr) s
      else if action st = ''type'' then
        in_step (call_tool_in_session E ''browser_type''
          [(''selector'', AStr (target st)), (''text'', AStr (or_str (step_value st) []))] tr) s
      else if action st = ''wait'' then
        in_step (call_tool_in_session E ''browser_wait''
          [(''selector'', if target st \<noteq> [] then AStr (target st) else ANone),
           (''timeout'', AInt (or_int (timeout st) 1000))] tr) s
      else if action st = ''scroll'' then
        in_step (call_tool_in_session E ''browser_scroll''
          [(''direction'', AStr (or_str (step_value st) ''down'')),
           (''amount'', AInt (or_int (timeout st) 500))] tr) s
      else if action st = ''screenshot'' then
        (case call_tool_in_session E ''browser_screenshot'' [] tr of
           (Inl e, tr') \<Rightarrow> (Inl e, (res, ag, tr'))
         | (Inr r, tr') \<Rightarrow>
             (case save_first_image E (if target st \<noteq> [] then target st else name st) r
                     (res, ag, tr') of
                (Some e, s') \<Rightarrow> (Inl e, s')
              | (None, s') \<Rightarrow> (Inr r, s')))
      else if action st = ''assert_text'' then
        (case call_tool_in_session E ''browser_get_content'' [] tr of
           (Inl e, tr') \<Rightarrow> (Inl e, (res, ag, tr'))
         | (Inr r, tr') \<Rightarrow>
             (if success r \<and> content r \<noteq> [] then
                asserted E (''Text assertion: '' @ quoted (target st) @ '' present = '')
                  (str_in (lower (target st)) (lower (item_text (hd (content r)))))
                  (res, ag, tr')
              else (Inr (failure ''Could not get page content''), (res, ag, tr'))))
      else if action st = ''assert_element'' then
        (case call_tool_in_session E ''browser_get_html'' [] tr of
           (Inl e, tr') \<Rightarrow> (Inl e, (res, ag, tr'))
         | (Inr r, tr') \<Rightarrow>
             (if success r \<and> content r \<noteq> [] then
                asserted E (''Element assertion: '' @ quoted (target st) @ '' exists = '')
                  (selector_matches_html (target st) (item_text (hd (content r))))
                  (res, ag, tr')
              else (Inr (failure ''Could not get page HTML''), (res, ag, tr'))))
      else if action st = ''assert_url'' then
        asserted E
          (''URL assertion: '' @ quoted (target st) @ '' in '' @ quoted (current_url ag) @ '' = '')
          (str_in (lower (target st)) (lower (current_url ag))) s
      else if action st = ''assert_title'' then
        (case call_tool_in_session E ''browser_get_html'' [] tr of
           (Inl e, tr') \<Rightarrow> (Inl e, (res, ag, tr'))
         | (Inr r, tr') \<Rightarrow>
             (if success r \<and> content r \<noteq> [] then
                (case title_search (item_text (hd (content r))) of
                   Some title \<Rightarrow>
                     asserted E
                       (''Title assertion: '' @ quoted (target st) @ '' in '' @ quoted title
                          @ '' = '')
                       (str_in (lower (target st)) (lower title)) (res, ag, tr')
                 | None \<Rightarrow> (Inr (failure ''No title found''), (res, ag, tr')))
              else (Inr (failure ''Could not get page HTML''), (res, ag, tr'))))
      else (Inr (failure (''Unknown action: '' @ action st)), s))"

text \<open>
  The rest of the \<open>try\<close> block: classification, then the screenshot taken on failure.
\<close>

definition classify :: "response \<Rightarrow> StepResult \<Rightarrow> StepResult" where
  "classify ar res =
     res\<lparr>status := (if success ar then ''passed'' else ''failed''),
         message := (case error ar of None \<Rightarrow> [] | Some m \<Rightarrow> m)\<rparr>"

definition failure_screenshot :: "env \<Rightarrow> TestStep \<Rightarrow> sstate \<Rightarrow> exn option \<times> sstate" where
  "failure_screenshot E st s =
     (case s of (res, ag, tr) \<Rightarrow>
        if status res = ''failed'' \<and> screenshot_on_failure st then
          (case call_tool_in_session E ''browser_screenshot'' [] tr of
             (Inl e, tr') \<Rightarrow> (Some e, (res, ag, tr'))
           | (Inr r, tr') \<Rightarrow> save_first_image E (''failure_'' @ name st) r (res, ag, tr'))
        else (None, s))"

text \<open>The \<open>try\<close> block: its first statement is a log call.\<close>

definition try_block :: "env \<Rightarrow> TestStep \<Rightarrow> sstate \<Rightarrow> exn option \<times> sstate" where
  "try_block E st s =
     (case s of (res, ag, tr) \<Rightarrow>
        (case log E ag (''Executing step: '' @ name st) ''STEP'' tr of
           (Some e, tr0) \<Rightarrow> (Some e, (res, ag, tr0))
         | (None, tr0) \<Rightarrow>
             (case dispatch E st (res, ag, tr0) of
                (Inl e, s1) \<Rightarrow> (Some e, s1)
              | (Inr ar, (res1, ag1, tr1)) \<Rightarrow>
                  failure_screenshot E st (classify ar res1, ag1, tr1))))"

definition pending :: "TestStep \<Rightarrow> int \<Rightarrow> StepResult" where
  "pending st t =
     \<lparr>step = st, status = ''pending'', message = [], screenshot = [],
      start_time = Some t, end_time = None, duration = 0,
      actual_value = PNone, error_trace = []\<rparr>"

text \<open>
  The handler of the \<open>try\<close> block: it sets status and message, then logs; an exception
  of that log call leaves the function.
\<close>

definition except_block :: "env \<Rightarrow> exn \<Rightarrow> sstate \<Rightarrow> exn option \<times> sstate" where
  "except_block E e s =
     (case s of (res, ag, tr) \<Rightarrow>
        (case log E ag (''Step error: '' @ e) ''ERROR'' tr of
           (x, tr') \<Rightarrow> (x, (res\<lparr>status := ''error'', message := e\<rparr>, ag, tr'))))"

text \<open>
  The status line printed after the \<open>try\<close> statement. The three icons (U+2713, U+2717,
  U+26A0) lie outside the range of \<open>char\<close> and are written as their UTF-8 bytes; only
  \<open>print_line\<close> reads them.
\<close>

definition status_icon :: "string \<Rightarrow> string" where
  "status_icon s =
     (if s = ''passed'' then [CHR 0xE2, CHR 0x9C, CHR 0x93]
      else if s = ''failed'' then [CHR 0xE2, CHR 0x9C, CHR 0x97]
      else [CHR 0xE2, CHR 0x9A, CHR 0xA0])"

definition status_line :: "env \<Rightarrow> StepResult \<Rightarrow> string" where
  "status_line E r =
     status_icon (status r) @ '' Step '' @ quoted (name (step r)) @ '': '' @ status r
       @ '' ('' @ format_2f E (duration r) @ ''s)''"

definition run_step_in_session ::
  "env \<Rightarrow> TestStep \<Rightarrow> QATestingAgent \<times> event list
     \<Rightarrow> (exn + StepResult) \<times> QATestingAgent \<times> event list" where
  "run_step_in_session E st s =
     (case s of (ag, tr) \<Rightarrow>
      case now E tr of (t0, tr0) \<Rightarrow>
      case (case try_block E st (pending st t0, ag, tr0) of
              (None, s1) \<Rightarrow> (None, s1)
            | (Some e, s1) \<Rightarrow> except_block E e s1) of
        (Some e', (res, ag1, tr1)) \<Rightarrow> (Inl e', ag1, tr1)
      | (None, (res, ag1, tr1)) \<Rightarrow>
          (case now E tr1 of (t1, tr2) \<Rightarrow>
             let result = res\<lparr>end_time := Some t1, duration := of_int (t1 - t0) / 1000000\<rparr>
             in (case log E ag1 (status_line E result) ''INFO'' tr2 of
                   (Some e', tr3) \<Rightarrow> (Inl e', ag1, tr3)
                 | (None, tr3) \<Rightarrow> (Inr result, ag1, tr3))))"

subsection \<open>run_scenario and run_suite\<close>

text \<open>
  The three loops of \<open>run_scenario\<close>, each appending to \<open>step_results\<close>. A step whose
  run raises ends the loop with that exception and leaves no result. The setup loop
  raises at a critical step that did not pass, the main loop logs and breaks there, the
  teardown loop runs through.
\<close>

type_synonym rstate = "StepResult list \<times> QATestingAgent \<times> event list"

fun run_setup :: "env \<Rightarrow> TestStep list \<Rightarrow> rstate \<Rightarrow> exn option \<times> rstate" where
  "run_setup E [] s = (None, s)"
| "run_setup E (st # sts) (rs, ag, tr) =
     (case run_step_in_session E st (ag, tr) of
        (Inl e, ag', tr') \<Rightarrow> (Some e, (rs, ag', tr'))
      | (Inr r, ag', tr') \<Rightarrow>
          if status r \<noteq> ''passed'' \<and> critical st
          then (Some (''Critical setup step failed: '' @ name st), (rs @ [r], ag', tr'))
          else run_setup E sts (rs @ [r], ag', tr'))"

fun run_main :: "env \<Rightarrow> TestStep list \<Rightarrow> rstate \<Rightarrow> exn option \<times> rstate" where
  "run_main E [] s = (None, s)"
| "run_main E (st # sts) (rs, ag, tr) =
     (case run_step_in_session E st (ag, tr) of
        (Inl e, ag', tr') \<Rightarrow> (Some e, (rs, ag', tr'))
      | (Inr r, ag', tr') \<Rightarrow>
          if status r \<noteq> ''passed'' \<and> critical st
          then (case log E ag' ''Critical step failed, stopping scenario'' ''ERROR'' tr' of
                  (x, tr'') \<Rightarrow> (x, (rs @ [r], ag', tr'')))
          else run_main E sts (rs @ [r], ag', tr'))"

fun run_teardown :: "env \<Rightarrow> TestStep list \<Rightarrow> rstate \<Rightarrow> exn option \<times> rstate" where
  "run_teardown E [] s = (None, s)"
| "run_teardown E (st # sts) (rs, ag, tr) =
     (case run_step_in_session E st (ag, tr) of
        (Inl e, ag', tr') \<Rightarrow> (Some e, (rs, ag', tr'))
      | (Inr r, ag', tr') \<Rightarrow> run_teardown E sts (rs @ [r], ag', tr'))"

text \<open>The three phases of the \<open>try\<close> block of \<open>run_scenario\<close>, each with its log line.\<close>

definition setup_phase :: "env \<Rightarrow> TestScenario \<Rightarrow> rstate \<Rightarrow> exn option \<times> rstate" where
  "setup_phase E sc s =
     (case s of (rs, ag, tr) \<Rightarrow>
        if setup_steps sc \<noteq> [] then
          (case log E ag ''Running setup steps...'' ''SETUP'' tr of
             (Some e, tr') \<Rightarrow> (Some e, (rs, ag, tr'))
           | (None, tr') \<Rightarrow> run_setup E (setup_steps sc) (rs, ag, tr'))
        else (None, s))"

definition main_phase :: "env \<Rightarrow> TestScenario \<Rightarrow> rstate \<Rightarrow> exn option \<times> rstate" where
  "main_phase E sc s =
     (case s of (rs, ag, tr) \<Rightarrow>
        (case log E ag ''Running test steps...'' ''TEST'' tr of
           (Some e, tr') \<Rightarrow> (Some e, (rs, ag, tr'))
         | (None, tr') \<Rightarrow> run_main E (steps sc) (rs, ag, tr')))"

definition teardown_phase :: "env \<Rightarrow> TestScenario \<Rightarrow> rstate \<Rightarrow> exn option \<times> rstate" where
  "teardown_phase E sc s =
     (case s of (rs, ag, tr) \<Rightarrow>
        if teardown_steps sc \<noteq> [] then
          (case log E ag ''Running teardown steps...'' ''TEARDOWN'' tr of
             (Some e, tr') \<Rightarrow> (Some e, (rs, ag, tr'))
           | (None, tr') \<Rightarrow> run_teardown E (teardown_steps sc) (rs, ag, tr'))
        else (None, s))"

definition scenario_try ::
  "env \<Rightarrow> TestScenario \<Rightarrow> QATestingAgent \<times> event list \<Rightarrow> exn option \<times> rstate" where
  "scenario_try E sc s =
     (case s of (ag, tr) \<Rightarrow>
        (case setup_phase E sc ([], ag, tr) of
           (Some e, s1) \<Rightarrow> (Some e, s1)
         | (None, s1) \<Rightarrow>
             (case main_phase E sc s1 of
                (Some e, s2) \<Rightarrow> (Some e, s2)
              | (None, s2) \<Rightarrow> teardown_phase E sc s2)))"

text \<open>
  The body of the \<open>async with\<close>: the \<open>try\<close> and its handler, which only logs. What is
  left of a caught exception is the list of results gathered before it; an exception of
  the handler's own log call leaves the body.
\<close>

definition scenario_body ::
  "env \<Rightarrow> TestScenario \<Rightarrow> QATestingAgent \<times> event list \<Rightarrow> exn option \<times> rstate" where
  "scenario_body E sc s =
     (case scenario_try E sc s of
        (None, s1) \<Rightarrow> (None, s1)
      | (Some e, (rs, ag, tr)) \<Rightarrow>
          (case log E ag (''Scenario error: '' @ e) ''ERROR'' tr of
             (x, tr') \<Rightarrow> (x, (rs, ag, tr'))))"

definition scenario_status :: "StepResult list \<Rightarrow> string" where
  "scenario_status rs =
     (let failed_steps = filter (\<lambda>r. status r = ''failed'') rs;
          error_steps = filter (\<lambda>r. status r = ''error'') rs
      in if error_steps \<noteq> [] then ''error''
         else if failed_steps \<noteq> [] then ''failed''
         else ''passed'')"

text \<open>The log lines at the start and at the end of \<open>run_scenario\<close>, as (message, level).\<close>

definition scenario_banner :: "TestScenario \<Rightarrow> (string \<times> string) list" where
  "scenario_banner sc =
     [(newline # replicate 60 CHR ''='', ''INFO''),
      (''Running Scenario: '' @ scenario_name sc, ''INFO''),
      (''Description: '' @ scenario_description sc, ''INFO''),
      (replicate 60 CHR ''='' @ [newline], ''INFO'')]"

definition scenario_summary :: "env \<Rightarrow> TestResult \<Rightarrow> (string \<times> string) list" where
  "scenario_summary E r =
     [(newline # replicate 60 CHR ''='', ''INFO''),
      (''Scenario Complete: '' @ scenario_name (scenario r), ''INFO''),
      (''Status: '' @ upper (result_status r), ''INFO''),
      (''Duration: '' @ format_2f E (result_duration r) @ ''s'', ''INFO''),
      (''Steps: '' @ str_nat (length (step_results r)) @ '' total, ''
         @ str_nat (length (filter (\<lambda>x. status x = ''failed'') (step_results r))) @ '' failed, ''
         @ str_nat (length (filter (\<lambda>x. status x = ''error'') (step_results r))) @ '' errors'',
       ''INFO''),
      (replicate 60 CHR ''='' @ [newline], ''INFO'')]"

definition run_scenario ::
  "env \<Rightarrow> TestScenario \<Rightarrow> QATestingAgent \<times> event list
     \<Rightarrow> (exn + TestResult) \<times> QATestingAgent \<times> event list" where
  "run_scenario E sc s =
     (case s of (ag, tr) \<Rightarrow>
      case logs E ag (scenario_banner sc) tr of
        (Some e, tr1) \<Rightarrow> (Inl e, ag, tr1)
      | (None, tr1) \<Rightarrow>
         (case now E tr1 of (t0, tr0) \<Rightarrow>
          case connect E tr0 of
            Some e \<Rightarrow> (Inl e, ag, tr0 @ [Open])
          | None \<Rightarrow>
             (case scenario_body E sc (ag, tr0 @ [Open]) of (x, (rs, ag1, tr2)) \<Rightarrow>
              case disconnect E tr2 of
                Some e \<Rightarrow> (Inl e, ag1, tr2 @ [Close])
              | None \<Rightarrow>
                 (case x of
                    Some e \<Rightarrow> (Inl e, ag1, tr2 @ [Close])
                  | None \<Rightarrow>
                     (case now E (tr2 @ [Close]) of (t1, tr3) \<Rightarrow>
                        let test_result =
                              \<lparr>scenario = sc, result_status = scenario_status rs,
                               step_results = rs,
                               result_start_time = Some t0, result_end_time = Some t1,
                               result_duration = of_int (t1 - t0) / 1000000,
                               error_message = []\<rparr>;
                            ag2 = ag1\<lparr>test_results := test_results ag1 @ [test_result]\<rparr>
                        in (case logs E ag2 (scenario_summary E test_result) tr3 of
                              (Some e, tr4) \<Rightarrow> (Inl e, ag2, tr4)
                            | (None, tr4) \<Rightarrow> (Inr test_result, ag2, tr4)))))))"

fun run_scenarios ::
  "env \<Rightarrow> TestScenario list \<Rightarrow> TestResult list \<Rightarrow> QATestingAgent \<times> event list
     \<Rightarrow> (exn + TestResult list) \<times> QATestingAgent \<times> event list" where
  "run_scenarios E [] results s = (Inr results, s)"
| "run_scenarios E (sc # scs) results s =
     (case run_scenario E sc s of
        (Inl e, s') \<Rightarrow> (Inl e, s')
      | (Inr r, s') \<Rightarrow> run_scenarios E scs (results @ [r]) s')"

definition suite_banner :: "TestSuite \<Rightarrow> (string \<times> string) list" where
  "suite_banner suite =
     [(newline # replicate 60 CHR ''#'', ''INFO''),
      (''# TEST SUITE: '' @ suite_name suite, ''INFO''),
      (''# Scenarios: '' @ str_nat (length (scenarios suite)), ''INFO''),
      (replicate 60 CHR ''#'' @ [newline], ''INFO'')]"

definition run_suite ::
  "env \<Rightarrow> TestSuite \<Rightarrow> QATestingAgent \<times> event list
     \<Rightarrow> (exn + TestResult list) \<times> QATestingAgent \<times> event list" where
  "run_suite E suite s =
     (case s of (ag, tr) \<Rightarrow>
      case logs E ag (suite_banner suite) tr of
        (Some e, tr0) \<Rightarrow> (Inl e, ag, tr0)
      | (None, tr0) \<Rightarrow>
         (case run_scenarios E (scenarios suite) [] (ag, tr0) of
            (Inl e, s') \<Rightarrow> (Inl e, s')
          | (Inr results, (ag1, tr1)) \<Rightarrow>
              (case generate_report E tr1 suite results of
                 Inl e \<Rightarrow> (Inl e, ag1, tr1 @ [Report])
               | Inr report_path \<Rightarrow>
                   (case log E ag1 (newline # ''Test report generated: '' @ report_path)
                           ''INFO'' (tr1 @ [Report]) of
                      (Some e, tr2) \<Rightarrow> (Inl e, ag1, tr2)
                    | (None, tr2) \<Rightarrow> (Inr results, ag1, tr2)))))"

section \<open>Assertion library (assertions.py)\<close>

subsection \<open>Regular expressions\<close>

text \<open>
  A pattern is the function from a string to the remainders left by its matches at the
  start of the string, in the order a backtracking matcher tries them. The pattern
  matches at the start of \<open>s\<close> when the list is not empty.
\<close>

type_synonym matcher = "string \<Rightarrow> string list"

text \<open>A literal under \<open>re.IGNORECASE\<close>, and a character class.\<close>

definition lit :: "string \<Rightarrow> matcher" where
  "lit p s = (if prefix_ci p s then [drop (length p) s] else [])"

definition cls :: "(char \<Rightarrow> bool) \<Rightarrow> matcher" where
  "cls P s = (case s of [] \<Rightarrow> [] | c # cs \<Rightarrow> if P c then [cs] else [])"

definition seq :: "matcher \<Rightarrow> matcher \<Rightarrow> matcher" where
  "seq m1 m2 s = concat (map m2 (m1 s))"

definition alt :: "matcher \<Rightarrow> matcher \<Rightarrow> matcher" where
  "alt m1 m2 s = m1 s @ m2 s"

definition opt :: "matcher \<Rightarrow> matcher" where
  "opt m s = m s @ [s]"

text \<open>\<open>m{n}\<close>, \<open>m{0,n}\<close>, \<open>m{lo,hi}\<close> and \<open>m+\<close> (greedy).\<close>

fun exactly :: "nat \<Rightarrow> matcher \<Rightarrow> matcher" where
  "exactly 0 m s = [s]"
| "exactly (Suc n) m s = concat (map (exactly n m) (m s))"

fun upto :: "nat \<Rightarrow> matcher \<Rightarrow> matcher" where
  "upto 0 m s = [s]"
| "upto (Suc n) m s = concat (map (upto n m) (m s)) @ [s]"

definition rep :: "nat \<Rightarrow> nat \<Rightarrow> matcher \<Rightarrow> matcher" where
  "rep lo hi m = seq (exactly lo m) (upto (hi - lo) m)"

text \<open>
  Each round of \<open>m+\<close> consumes at least one character (an empty round ends the
  repetition), so \<open>length s\<close> further rounds after the first are all there can be.
\<close>

definition plus :: "matcher \<Rightarrow> matcher" where
  "plus m s = seq m (upto (length s) m) s"

text \<open>
  The classes of the URL pattern on code points below 256: \<open>[A-Z]\<close> under
  \<open>re.IGNORECASE\<close>, \<open>\d\<close>, \<open>[A-Z0-9]\<close>, \<open>[A-Z0-9-]\<close>, \<open>[/?]\<close> and \<open>\S\<close>.
\<close>

definition is_letter :: "char \<Rightarrow> bool" where
  "is_letter c =
     (let n = (of_char c :: nat) in (65 \<le> n \<and> n \<le> 90) \<or> (97 \<le> n \<and> n \<le> 122))"

definition is_digit :: "char \<Rightarrow> bool" where
  "is_digit c = (let n = (of_char c :: nat) in 48 \<le> n \<and> n \<le> 57)"

definition is_alnum :: "char \<Rightarrow> bool" where
  "is_alnum c = (is_letter c \<or> is_digit c)"

definition is_alnum_dash :: "char \<Rightarrow> bool" where
  "is_alnum_dash c = (is_letter c \<or> is_digit c \<or> c = CHR ''-'')"

definition is_slash_or_query :: "char \<Rightarrow> bool" where
  "is_slash_or_query c = (c = CHR ''/'' \<or> c = CHR ''?'')"

definition is_space :: "char \<Rightarrow> bool" where
  "is_space c =
     (let n = (of_char c :: nat)
      in (9 \<le> n \<and> n \<le> 13) \<or> (28 \<le> n \<and> n \<le> 32) \<or> n = 133 \<or> n = 160)"

definition is_nonspace :: "char \<Rightarrow> bool" where
  "is_nonspace c = (\<not> is_space c)"

text \<open>
  The pattern of \<open>is_valid_url\<close>, piece by piece as the source concatenates it, without
  the anchors.
\<close>

definition url_scheme :: matcher where
  "url_scheme = seq (lit ''http'') (seq (opt (lit ''s'')) (lit ''://''))"

definition url_label :: matcher where
  "url_label =
     seq (cls is_alnum)
       (seq (opt (seq (rep 0 61 (cls is_alnum_dash)) (cls is_alnum))) (lit ''.''))"

definition url_domain :: matcher where
  "url_domain = seq (plus url_label) (seq (rep 2 6 (cls is_letter)) (opt (lit ''.'')))"

definition url_ipv4 :: matcher where
  "url_ipv4 =
     seq (rep 1 3 (cls is_digit)) (seq (lit ''.'')
    (seq (rep 1 3 (cls is_digit)) (seq (lit ''.'')
    (seq (rep 1 3 (cls is_digit)) (seq (lit ''.'')
         (rep 1 3 (cls is_digit)))))))"

definition url_host :: matcher where
  "url_host = alt url_domain (alt (lit ''localhost'') url_ipv4)"

definition url_port :: matcher where
  "url_port = opt (seq (lit '':'') (plus (cls is_digit)))"

definition url_path :: matcher where
  "url_path = alt (opt (lit ''/'')) (seq (cls is_slash_or_query) (plus (cls is_nonspace)))"

definition url_pattern :: matcher where
  "url_pattern = seq url_scheme (seq url_host (seq url_port url_path))"

text \<open>\<open>$\<close> without \<open>re.MULTILINE\<close>: the end of the string, or just before a final newline.\<close>

definition at_end :: "string \<Rightarrow> bool" where
  "at_end s = (s = [] \<or> s = [CHR 0x0A])"

text \<open>\<open>bool(pattern.match(s))\<close> for a pattern that starts with \<open>^\<close> and ends with \<open>$\<close>.\<close>

definition re_match :: "matcher \<Rightarrow> string \<Rightarrow> bool" where
  "re_match m s = list_ex at_end (m s)"

subsection \<open>Assertions\<close>

record AssertionResult =
  passed :: bool
  expected_value :: pyval
  actual :: pyval
  assertion_message :: string
  assertion_type :: string

record Assertions =
  soft_mode :: bool
  failures :: "AssertionResult list"

definition handle_result :: "AssertionResult \<Rightarrow> Assertions \<Rightarrow> bool \<times> Assertions" where
  "handle_result result A =
     (if \<not> passed result
      then (if soft_mode A
            then (passed result, A\<lparr>failures := failures A @ [result]\<rparr>)
            else (passed result, A))
      else (passed result, A))"

definition is_valid_url :: "string \<Rightarrow> string \<Rightarrow> Assertions \<Rightarrow> bool \<times> Assertions" where
  "is_valid_url url msg A =
     handle_result
       \<lparr>passed = re_match url_pattern url,
        expected_value = PStr ''valid URL'',
        actual = PStr url,
        assertion_message =
          (if msg \<noteq> [] then msg else [CHR 0x27] @ url @ [CHR 0x27] @ '' is not a valid URL''),
        assertion_type = ''is_valid_url''\<rparr> A"

section \<open>Notions used to state the properties\<close>

text \<open>
  The precedence rule for a scenario's status, over the statuses of its step results:
  error dominates failed dominates passed.
\<close>

definition aggregate_status :: "string list \<Rightarrow> string" where
  "aggregate_status sts =
     (if ''error'' \<in> set sts then ''error''
      else if ''failed'' \<in> set sts then ''failed''
      else ''passed'')"

text \<open>
  The normalized form of one content part (a part with neither text nor data has none),
  and the text payloads of a result that contain the marker, in order.
\<close>

definition normalized_part :: "content \<Rightarrow> item option" where
  "normalized_part c =
     (case c of
        TextContent t \<Rightarrow> Some (TextItem t)
      | ImageContent d m \<Rightarrow> Some (ImageItem d (case m of None \<Rightarrow> ''image/png'' | Some x \<Rightarrow> x))
      | EmbeddedResource \<Rightarrow> None)"

definition texts :: "content list \<Rightarrow> string list" where
  "texts cs = concat (map (\<lambda>c. case c of TextContent t \<Rightarrow> [t] | _ \<Rightarrow> []) cs)"

definition error_texts :: "content list \<Rightarrow> string list" where
  "error_texts cs = filter (str_in ''Error:'') (texts cs)"

text \<open>The tool invocations recorded in a history, in order.\<close>

definition calls :: "event list \<Rightarrow> (string \<times> arguments) list" where
  "calls tr = concat (map (\<lambda>ev. case ev of Call nm args \<Rightarrow> [(nm, args)] | _ \<Rightarrow> []) tr)"

text \<open>
  The events that log calls with the given (message, level) pairs add to the history:
  one per line when the agent is verbose, none otherwise.
\<close>

definition logged :: "QATestingAgent \<Rightarrow> (string \<times> string) list \<Rightarrow> event list" where
  "logged ag ms = (if verbose (config ag) then map (\<lambda>(msg, level). Log level msg) ms else [])"

text \<open>
  A screenshot capture named \<open>nm\<close>, attempted at history \<open>tr\<close>: the image it would
  save (the first image of a response that carries no error marker), the path it would
  save it to, and the exception, if any, that it meets, raised by the invocation itself,
  by saving the image, or by logging the saved path.
\<close>

definition capture_image :: "env \<Rightarrow> event list \<Rightarrow> string option" where
  "capture_image E tr =
     (case respond E tr ''browser_screenshot'' [] of
        Inl e \<Rightarrow> None
      | Inr result \<Rightarrow>
          (if error_texts (result_content result) \<noteq> [] then None
           else first_image (List.map_filter normalized_part (result_content result))))"

definition capture_path :: "env \<Rightarrow> AgentConfig \<Rightarrow> string \<Rightarrow> event list \<Rightarrow> string" where
  "capture_path E cfg nm tr =
     path_join (screenshot_dir cfg)
       (nm @ ''_'' @ strftime E (clock E (tr @ [Call ''browser_screenshot'' []])) @ ''.png'')"

definition capture_error :: "env \<Rightarrow> QATestingAgent \<Rightarrow> string \<Rightarrow> event list \<Rightarrow> exn option" where
  "capture_error E ag nm tr =
     (case respond E tr ''browser_screenshot'' [] of
        Inl e \<Rightarrow> Some e
      | Inr result \<Rightarrow>
          (case capture_image E tr of
             None \<Rightarrow> None
           | Some d \<Rightarrow>
               (case write_png E (tr @ [Call ''browser_screenshot'' [], Clock])
                       (capture_path E (config ag) nm tr) d of
                  Some e \<Rightarrow> Some e
                | None \<Rightarrow>
                    fst (log E ag (''Screenshot saved: '' @ capture_path E (config ag) nm tr)
                           ''INFO''
                           (tr @ [Call ''browser_screenshot'' [], Clock,
                                  Write (capture_path E (config ag) nm tr) d])))))"

text \<open>
  The result of a step that started at \<open>t0\<close>, met the exception \<open>e\<close> in its \<open>try\<close> block
  and ended at \<open>t1\<close>.
\<close>

definition error_result :: "TestStep \<Rightarrow> int \<Rightarrow> exn \<Rightarrow> int \<Rightarrow> StepResult" where
  "error_result st t0 e t1 =
     \<lparr>step = st, status = ''error'', message = e, screenshot = [],
      start_time = Some t0, end_time = Some t1, duration = of_int (t1 - t0) / 1000000,
      actual_value = PNone, error_trace = []\<rparr>"

text \<open>
  Executing steps in order: each step is run by \<open>run_step_in_session\<close> in the state the
  previous one left; the results are collected, and a run that raises ends the
  execution with its exception.
\<close>

fun execute_in_order ::
  "env \<Rightarrow> TestStep list \<Rightarrow> QATestingAgent \<times> event list
     \<Rightarrow> (exn + StepResult list) \<times> QATestingAgent \<times> event list" where
  "execute_in_order E [] s = (Inr [], s)"
| "execute_in_order E (st # sts) s =
     (case run_step_in_session E st s of
        (Inl e, s') \<Rightarrow> (Inl e, s')
      | (Inr r, s') \<Rightarrow>
          (case execute_in_order E sts s' of
             (Inl e, s'') \<Rightarrow> (Inl e, s'')
           | (Inr rs, s'') \<Rightarrow> (Inr (r # rs), s'')))"

section \<open>Concrete objects and environments\<close>

text \<open>
  \<open>AgentConfig()\<close> and \<open>QATestingAgent()\<close> as the source initialises them,
  \<open>QATestingAgent(AgentConfig(verbose=False))\<close>, and the constructors
  \<open>TestStep(name, action, target, critical=c)\<close>,
  \<open>TestScenario(name, setup_steps, steps, teardown_steps)\<close> and \<open>TestSuite(name, scenarios)\<close>
  with every other field at its default.
\<close>

definition default_config :: AgentConfig where
  "default_config =
     \<lparr>server_command = ''/root/payverse/venv/bin/python'',
      server_script = ''/root/payverse/mcp_browser_server.py'',
      screenshot_dir = ''/root/payverse/qa_screenshots'',
      report_dir = ''/root/payverse/qa_reports'',
      default_timeout = 30000, retry_attempts = 3, verbose = True\<rparr>"

definition new_agent :: QATestingAgent where
  "new_agent = \<lparr>config = default_config, current_url = [], test_results = []\<rparr>"

definition quiet_agent :: QATestingAgent where
  "quiet_agent =
     \<lparr>config = default_config\<lparr>verbose := False\<rparr>, current_url = [], test_results = []\<rparr>"

definition test_step :: "string \<Rightarrow> string \<Rightarrow> string \<Rightarrow> bool \<Rightarrow> TestStep" where
  "test_step nm act tgt crit =
     \<lparr>name = nm, action = act, target = tgt, step_value = None, timeout = None,
      critical = crit, screenshot_on_failure = True, retry_count = 0,
      description = [], expected = PNone\<rparr>"

definition test_scenario ::
  "string \<Rightarrow> TestStep list \<Rightarrow> TestStep list \<Rightarrow> TestStep list \<Rightarrow> TestScenario" where
  "test_scenario nm su st td =
     \<lparr>scenario_name = nm, scenario_description = [], steps = st, setup_steps = su,
      teardown_steps = td, tags = [], priority = 5, scenario_timeout = 300000, data = []\<rparr>"

definition test_suite :: "string \<Rightarrow> TestScenario list \<Rightarrow> TestSuite" where
  "test_suite nm scs =
     \<lparr>suite_name = nm, suite_description = [], scenarios = scs, parallel = False,
      stop_on_failure = False, suite_tags = []\<rparr>"

text \<open>
  An environment whose session always opens and closes, whose clock counts the
  interactions so far other than log lines, whose files can always be written, whose
  standard output takes every line, and whose tools answer by name alone.
\<close>

definition is_log :: "event \<Rightarrow> bool" where
  "is_log ev = (case ev of Log _ _ \<Rightarrow> True | _ \<Rightarrow> False)"

definition ticks :: "event list \<Rightarrow> int" where
  "ticks tr = int (length (filter (\<lambda>ev. \<not> is_log ev) tr))"

definition scripted :: "(string \<Rightarrow> exn + CallToolResult) \<Rightarrow> env" where
  "scripted f =
     \<lparr>clock = ticks,
      strftime = (\<lambda>t. ''20240101_120000''),
      connect = (\<lambda>tr. None),
      disconnect = (\<lambda>tr. None),
      respond = (\<lambda>tr nm args. f nm),
      write_png = (\<lambda>tr p d. None),
      generate_report = (\<lambda>tr suite rs. Inr ''/root/payverse/qa_reports/report.html''),
      print_line = (\<lambda>tr level msg. None),
      format_2f = (\<lambda>x. ''0.00'')\<rparr>"

text \<open>
  A standard output that encodes ASCII only: a line with any other character raises.
  And one that cannot take the \<open>n\<close>-th line written to it (counted from 0) and takes
  all others.
\<close>

definition ascii_stdout :: "env \<Rightarrow> env" where
  "ascii_stdout E =
     E\<lparr>print_line := (\<lambda>tr level msg.
          if list_ex (\<lambda>c. 128 \<le> (of_char c :: nat)) msg
          then Some ''ordinal not in range(128)'' else None)\<rparr>"

definition stdout_blocks_at :: "nat \<Rightarrow> env \<Rightarrow> env" where
  "stdout_blocks_at n E =
     E\<lparr>print_line := (\<lambda>tr level msg.
          if length (filter is_log tr) = n
          then Some ''write could not complete without blocking'' else None)\<rparr>"

definition text_result :: "string \<Rightarrow> exn + CallToolResult" where
  "text_result t = Inr \<lparr>result_content = [TextContent t], isError = False\<rparr>"

text \<open>The server answers a click as its handler does on an exception; all else succeeds.\<close>

definition click_fails :: "string \<Rightarrow> exn + CallToolResult" where
  "click_fails nm =
     (if nm = ''browser_click'' then text_result ''Error: no element matches #buy''
      else text_result ''OK'')"

text \<open>The same, and the session is lost when the screenshot is requested.\<close>

definition click_fails_screenshot_raises :: "string \<Rightarrow> exn + CallToolResult" where
  "click_fails_screenshot_raises nm =
     (if nm = ''browser_click'' then text_result ''Error: no element matches #buy''
      else if nm = ''browser_screenshot'' then Inl ''Connection closed''
      else text_result ''OK'')"

text \<open>The same, and the screenshot returns an image and a confirmation.\<close>

definition click_fails_with_image :: "string \<Rightarrow> exn + CallToolResult" where
  "click_fails_with_image nm =
     (if nm = ''browser_click'' then text_result ''Error: no element matches #buy''
      else if nm = ''browser_screenshot''
        then Inr \<lparr>result_content =
                    [ImageContent ''iVBORw0KGgo='' (Some ''image/png''),
                     TextContent ''Screenshot captured''],
                  isError = False\<rparr>
      else text_result ''OK'')"

text \<open>The session is lost: every call raises.\<close>

definition transport_down :: "string \<Rightarrow> exn + CallToolResult" where
  "transport_down nm = Inl ''Connection closed''"

text \<open>The protocol reports a tool error by its flag, with a text that lacks the marker.\<close>

definition tool_error :: "string \<Rightarrow> exn + CallToolResult" where
  "tool_error nm =
     Inr \<lparr>result_content = [TextContent ''Timeout 30000ms exceeded.''], isError = True\<rparr>"

text \<open>The page is a table written with capitals.\<close>

definition table_page :: "string \<Rightarrow> exn + CallToolResult" where
  "table_page nm = text_result ''<TABLE><TR><TD>1</TD></TR></TABLE>''"

text \<open>The server cannot be started; and it can be started once only.\<close>

definition refuses :: env where
  "refuses = (scripted click_fails)\<lparr>connect := (\<lambda>tr. Some ''Connection refused'')\<rparr>"

definition refuses_second :: env where
  "refuses_second =
     (scripted click_fails)
       \<lparr>connect := (\<lambda>tr. if Open \<in> set tr then Some ''Connection refused'' else None)\<rparr>"

definition step_buy :: TestStep where
  "step_buy = test_step ''Buy'' ''click'' ''#buy'' True"

definition step_check :: TestStep where
  "step_check = test_step ''Check'' ''assert_url'' ''payverse'' False"

definition step_cleanup :: TestStep where
  "step_cleanup = test_step ''Cleanup'' ''wait'' [] False"

definition step_table :: TestStep where
  "step_table = test_step ''Has table'' ''assert_element'' ''TABLE'' False"

definition setup_fails :: TestScenario where
  "setup_fails = test_scenario ''Setup fails'' [step_buy] [step_check] [step_cleanup]"

definition main_fails :: TestScenario where
  "main_fails = test_scenario ''Main fails'' [] [step_buy, step_check] [step_cleanup]"

section \<open>Round trip through dictionaries\<close>

lemma step_round_trip: "step_from_dict (step_to_dict s) = Inr (step_defaults s)"
  by (simp add: step_from_dict_def step_to_dict_def step_fields_def field_def bind_def
      as_str_def opt_str_def opt_int_def as_bool_def as_int_def opt_str_val_def opt_int_val_def
      step_defaults_def split: option.splits)

lemma steps_round_trip:
  "steps_from_list (map (\<lambda>s. PDict (step_to_dict s)) xs) = Inr (map step_defaults xs)"
  by (induction xs) (simp_all add: step_round_trip bind_def)

lemma as_str_list_PStr: "as_str_list (map PStr xs) = Some xs"
  by (induction xs) (simp_all add: as_str_def)

text \<open>
  Claim C7, as the code has it. \<open>to_dict\<close> writes seven fields of a step and seven of a
  scenario; \<open>from_dict\<close> fills the others with the dataclass defaults. So the round trip
  returns the step with \<open>screenshot_on_failure = True\<close>, \<open>retry_count = 0\<close> and
  \<open>expected = None\<close>, and the scenario with every step so reset, \<open>timeout = 300000\<close> and
  \<open>data = {}\<close>; all other fields are the original's.
\<close>

theorem round_trip_resets_unserialised_fields:
  "step_from_dict (step_to_dict s) = Inr (step_defaults s) \<and>
   scenario_from_dict (scenario_to_dict sc) = Inr (scenario_defaults sc)"
  by (simp add: step_round_trip scenario_from_dict_def scenario_to_dict_def field_def bind_def
      as_steps_def as_str_def as_int_def as_tags_def as_str_list_PStr steps_round_trip
      scenario_defaults_def)

text \<open>
  Claim C7 as stated fails: a step with \<open>screenshot_on_failure = False\<close> does not come back
  equal to itself.
\<close>

theorem round_trip_counterexample:
  "step_from_dict (step_to_dict
     \<lparr>name = ''open menu'', action = ''click'', target = ''#menu'', step_value = None,
      timeout = None, critical = False, screenshot_on_failure = False, retry_count = 0,
      description = [], expected = PNone\<rparr>)
   \<noteq> Inr \<lparr>name = ''open menu'', action = ''click'', target = ''#menu'', step_value = None,
      timeout = None, critical = False, screenshot_on_failure = False, retry_count = 0,
      description = [], expected = PNone\<rparr>"
  by (simp add: step_round_trip step_defaults_def)

section \<open>URL validation\<close>

lemma url_localhost: "re_match url_pattern ''http://localhost:3000/path''"
  by code_simp

lemma url_example: "re_match url_pattern ''https://example.com''"
  by code_simp

lemma url_not_a_url: "\<not> re_match url_pattern ''not a url''"
  by code_simp

lemma url_ftp: "\<not> re_match url_pattern ''ftp://example.com''"
  by code_simp

lemma is_valid_url_result: "fst (is_valid_url url msg A) = re_match url_pattern url"
  by (simp add: is_valid_url_def handle_result_def)

text \<open>
  Claim C9. \<open>is_valid_url\<close> returns true for \<open>http://localhost:3000/path\<close> and
  \<open>https://example.com\<close>, and false for \<open>not a url\<close> and \<open>ftp://example.com\<close>, whatever
  the message argument and the mode of the assertion object.
\<close>

theorem is_valid_url_examples:
  "fst (is_valid_url ''http://localhost:3000/path'' msg A) = True \<and>
   fst (is_valid_url ''https://example.com'' msg A) = True \<and>
   fst (is_valid_url ''not a url'' msg A) = False \<and>
   fst (is_valid_url ''ftp://example.com'' msg A) = False"
  by (simp add: is_valid_url_result url_localhost url_example url_not_a_url url_ftp)

section \<open>Strings\<close>

lemma str_in_iff: "str_in n h \<longleftrightarrow> (\<exists>p s. h = p @ n @ s)"
proof (induction h)
  case Nil
  then show ?case by auto
next
  case (Cons c cs)
  show ?case
  proof
    assume "str_in n (c # cs)"
    then consider "prefix n (c # cs)" | "str_in n cs" by auto
    then show "\<exists>p s. c # cs = p @ n @ s"
    proof cases
      case 1
      then obtain s where "c # cs = n @ s" by (auto simp: prefix_def)
      then have "c # cs = [] @ n @ s" by simp
      then show ?thesis by blast
    next
      case 2
      with Cons.IH obtain p s where "cs = p @ n @ s" by blast
      then have "c # cs = (c # p) @ n @ s" by simp
      then show ?thesis by blast
    qed
  next
    assume "\<exists>p s. c # cs = p @ n @ s"
    then obtain p s where ps: "c # cs = p @ n @ s" by blast
    show "str_in n (c # cs)"
    proof (cases p)
      case Nil
      with ps have "prefix n (c # cs)" by (simp add: prefix_def)
      then show ?thesis by simp
    next
      case (Cons a p')
      with ps have "cs = p' @ n @ s" by simp
      with Cons.IH have "str_in n cs" by blast
      then show ?thesis by simp
    qed
  qed
qed

lemma str_in_set: "str_in n h \<Longrightarrow> set n \<subseteq> set h"
  by (auto simp: str_in_iff)

lemma lower_char_not_upper: "\<not> is_ascii_upper (lower_char c)"
proof -
  have "(of_char c :: nat) < 256" by simp
  then show ?thesis
    by (auto simp: lower_char_def is_ascii_upper_def is_latin1_upper_def)
qed

lemma lower_no_upper: "c \<in> set (lower s) \<Longrightarrow> \<not> is_ascii_upper c"
  by (auto simp: lower_def lower_char_not_upper)

lemma uppercase_selector_no_match:
  assumes "\<not> startswith selector ''#''" "\<not> startswith selector ''.''"
    and "c \<in> set selector" "is_ascii_upper c"
  shows "\<not> selector_matches_html selector html"
proof
  assume "selector_matches_html selector html"
  with assms(1,2) have "str_in (''<'' @ selector) (lower html)"
    by (simp add: selector_matches_html_def)
  then have "set (''<'' @ selector) \<subseteq> set (lower html)" by (rule str_in_set)
  with assms(3) have "c \<in> set (lower html)" by auto
  with assms(4) show False by (simp add: lower_no_upper)
qed

section \<open>Normalisation of tool responses\<close>

lemma collect_content:
  "content (collect cs r) = content r @ List.map_filter normalized_part cs"
  by (induction cs r rule: collect.induct)
     (simp_all add: normalized_part_def List.map_filter_simps)

lemma collect_success:
  "success (collect cs r) = (success r \<and> error_texts cs = [])"
  by (induction cs r rule: collect.induct) (auto simp: error_texts_def texts_def)

lemma collect_error:
  "error (collect cs r) =
     (if error_texts cs = [] then error r else Some (last (error_texts cs)))"
  by (induction cs r rule: collect.induct) (auto simp: error_texts_def texts_def)

lemma collect_eq:
  "collect cs \<lparr>success = True, content = [], error = None\<rparr> =
     \<lparr>success = (error_texts cs = []), content = List.map_filter normalized_part cs,
      error = (if error_texts cs = [] then None else Some (last (error_texts cs)))\<rparr>"
proof -
  let ?r = "collect cs \<lparr>success = True, content = [], error = None\<rparr>"
  have "?r = \<lparr>success = success ?r, content = content ?r, error = error ?r\<rparr>" by simp
  also have "\<dots> =
     \<lparr>success = (error_texts cs = []), content = List.map_filter normalized_part cs,
      error = (if error_texts cs = [] then None else Some (last (error_texts cs)))\<rparr>"
    by (simp only: collect_content collect_success collect_error) simp
  finally show ?thesis .
qed

lemma error_texts_iff:
  "error_texts cs \<noteq> [] \<longleftrightarrow> (\<exists>t. TextContent t \<in> set cs \<and> str_in ''Error:'' t)"
  by (induction cs) (auto simp: error_texts_def texts_def split: content.splits)

lemma call_tool_in_session_eq:
  "call_tool_in_session E nm args tr =
     (case respond E tr nm args of
        Inl e \<Rightarrow> (Inl e, tr @ [Call nm args])
      | Inr result \<Rightarrow>
          (Inr \<lparr>success = (error_texts (result_content result) = []),
                content = List.map_filter normalized_part (result_content result),
                error = (if error_texts (result_content result) = [] then None
                         else Some (last (error_texts (result_content result))))\<rparr>,
           tr @ [Call nm args]))"
  by (simp add: call_tool_in_session_def collect_eq split: sum.splits)

text \<open>
  Claim C8, as the code has it. The normalized response is failed exactly when some text
  payload contains the marker \<open>Error:\<close> (\<open>error_texts\<close> is not empty; see
  \<open>error_texts_iff\<close>), and its error is then the last such text; the failure flag of the
  result is not consulted. Every text and image part is collected, in order, whether the
  response is failed or not. When the call itself raises, there is no normalized
  response: the exception is passed on to the caller.
\<close>

theorem call_tool_normalization:
  "call_tool_in_session E nm args tr =
     (case respond E tr nm args of
        Inl e \<Rightarrow> (Inl e, tr @ [Call nm args])
      | Inr result \<Rightarrow>
          (Inr \<lparr>success = (error_texts (result_content result) = []),
                content = List.map_filter normalized_part (result_content result),
                error = (if error_texts (result_content result) = [] then None
                         else Some (last (error_texts (result_content result))))\<rparr>,
           tr @ [Call nm args]))"
  by (rule call_tool_in_session_eq)

text \<open>
  Claim C8 as stated fails in both ways the transport can report failure: a result
  flagged as an error whose text lacks the marker is normalized to a successful
  response, and a call that raises yields no response at all.
\<close>

theorem transport_failure_not_classified:
  "respond (scripted tool_error) [] ''browser_click'' [(''selector'', AStr ''#buy'')] =
     Inr \<lparr>result_content = [TextContent ''Timeout 30000ms exceeded.''], isError = True\<rparr> \<and>
   call_tool_in_session (scripted tool_error) ''browser_click'' [(''selector'', AStr ''#buy'')] [] =
     (Inr \<lparr>success = True, content = [TextItem ''Timeout 30000ms exceeded.''], error = None\<rparr>,
      [Call ''browser_click'' [(''selector'', AStr ''#buy'')]]) \<and>
   call_tool_in_session (scripted transport_down) ''browser_click''
       [(''selector'', AStr ''#buy'')] [] =
     (Inl ''Connection closed'', [Call ''browser_click'' [(''selector'', AStr ''#buy'')]])"
  by (simp add: call_tool_in_session_def scripted_def tool_error_def transport_down_def)

section \<open>Logging\<close>

lemma log_trace: "log E ag m l tr = (x, tr') \<Longrightarrow> tr' = tr @ logged ag [(m, l)]"
  by (auto simp: log_def logged_def split: if_splits)

lemma log_raises:
  "log E ag m l tr = (Some e, tr') \<Longrightarrow> verbose (config ag) \<and> print_line E tr l m = Some e"
  by (auto simp: log_def split: if_splits)

lemma logged_Nil: "logged ag [] = []"
  by (simp add: logged_def)

lemma logs_trace: "logs E ag ms tr = (None, tr') \<Longrightarrow> tr' = tr @ logged ag ms"
proof (induction ms arbitrary: tr)
  case Nil
  then show ?case by (simp add: logged_Nil)
next
  case (Cons m ms)
  obtain msg level where m: "m = (msg, level)" by (cases m)
  obtain x tr1 where l: "log E ag msg level tr = (x, tr1)" by (cases "log E ag msg level tr")
  from Cons.prems m l have x: "x = None" and r: "logs E ag ms tr1 = (None, tr')"
    by (auto split: option.splits)
  from log_trace[OF l] Cons.IH[OF r] m show ?case
    by (simp add: logged_def)
qed

lemma calls_append: "calls (xs @ ys) = calls xs @ calls ys"
  by (simp add: calls_def)

lemma calls_simps:
  "calls [] = []"
  "calls (Clock # tr) = calls tr"
  "calls (Call nm args # tr) = (nm, args) # calls tr"
  "calls (Write p d # tr) = calls tr"
  "calls (Log l m # tr) = calls tr"
  by (simp_all add: calls_def)

lemma calls_logged: "calls (logged ag ms) = []"
  by (induction ms) (auto simp: logged_def calls_def)

lemma log_calls: "log E ag m l tr = (x, tr') \<Longrightarrow> calls tr' = calls tr"
  by (auto dest!: log_trace simp: calls_append calls_logged)

section \<open>The step executor\<close>

subsection \<open>What a step leaves untouched\<close>

lemma save_first_image_frame:
  assumes "save_first_image E nm r (res, ag, tr) = (x, (res', ag', tr'))"
  shows "step res' = step res \<and> status res' = status res \<and> message res' = message res
         \<and> start_time res' = start_time res \<and> ag' = ag \<and> (x \<noteq> None \<longrightarrow> res' = res)"
  using assms
  by (auto simp: save_first_image_def split: if_splits option.splits prod.splits sum.splits)

lemma in_step_frame:
  "in_step c (res, ag, tr) = (x, (res', ag', tr')) \<Longrightarrow> res' = res \<and> ag' = ag"
  by (auto simp: in_step_def split: prod.splits)

lemma asserted_frame:
  "asserted E msg p (res, ag, tr) = (x, (res', ag', tr')) \<Longrightarrow> res' = res \<and> ag' = ag"
  by (auto simp: asserted_def split: prod.splits option.splits)

lemma dispatch_frame:
  assumes "dispatch E st (res, ag, tr) = (x, (res', ag', tr'))"
  shows "step res' = step res \<and> status res' = status res \<and> message res' = message res
         \<and> start_time res' = start_time res"
proof -
  consider "action st = ''screenshot''" | "action st \<noteq> ''screenshot''" by blast
  then show ?thesis
  proof cases
    case 1
    with assms show ?thesis
      by (auto simp: dispatch_def split: prod.splits sum.splits option.splits
          dest!: save_first_image_frame)
  next
    case 2
    with assms have "res' = res"
      by (auto simp: dispatch_def split: if_splits prod.splits sum.splits option.splits
          dest!: in_step_frame asserted_frame)
    then show ?thesis by simp
  qed
qed

lemma dispatch_raise_frame:
  assumes "dispatch E st (res, ag, tr) = (Inl e, (res', ag', tr'))"
  shows "res' = res \<and> ag' = ag"
proof -
  consider "action st = ''screenshot''" | "action st \<noteq> ''screenshot''" by blast
  then show ?thesis
  proof cases
    case 1
    with assms show ?thesis
      by (auto simp: dispatch_def split: prod.splits sum.splits option.splits
          dest!: save_first_image_frame)
  next
    case 2
    with assms show ?thesis
      by (auto simp: dispatch_def split: if_splits prod.splits sum.splits option.splits
          dest!: in_step_frame asserted_frame)
  qed
qed

lemma failure_screenshot_frame:
  assumes "failure_screenshot E st (res, ag, tr) = (x, (res', ag', tr'))"
  shows "step res' = step res \<and> status res' = status res \<and> message res' = message res
         \<and> start_time res' = start_time res \<and> ag' = ag"
  using assms
  by (auto simp: failure_screenshot_def split: if_splits prod.splits sum.splits
      dest!: save_first_image_frame)

lemma try_block_frame:
  assumes "try_block E st (res, ag, tr) = (x, (res', ag', tr'))"
  shows "step res' = step res \<and> start_time res' = start_time res"
  using assms
  by (auto simp: try_block_def classify_def split: prod.splits sum.splits option.splits
      dest!: dispatch_frame failure_screenshot_frame)

subsection \<open>Classification\<close>

lemma try_block_returns:
  assumes "try_block E st (res, ag, tr) = (None, (res', ag', tr'))"
  shows "\<exists>tr0 ar s1. log E ag (''Executing step: '' @ name st) ''STEP'' tr = (None, tr0) \<and>
           dispatch E st (res, ag, tr0) = (Inr ar, s1) \<and>
           status res' = (if success ar then ''passed'' else ''failed'')"
  using assms
  by (auto simp: try_block_def classify_def split: prod.splits sum.splits option.splits
      dest!: failure_screenshot_frame)

lemma run_step_cases:
  assumes "run_step_in_session E st (ag, tr) = (Inr r, s')"
  shows "step r = st \<and> start_time r = Some (clock E tr) \<and>
         (status r = ''error'' \<or>
          (\<exists>res ag1 tr1. try_block E st (pending st (clock E tr), ag, tr @ [Clock])
                            = (None, (res, ag1, tr1)) \<and> status r = status res))"
proof -
  obtain exc res ag1 tr1 where
    t: "try_block E st (pending st (clock E tr), ag, tr @ [Clock]) = (exc, (res, ag1, tr1))"
    by (metis prod_cases3)
  from try_block_frame[OF t] have f: "step res = st" "start_time res = Some (clock E tr)"
    by (simp_all add: pending_def)
  show ?thesis
  proof (cases exc)
    case None
    with assms t f show ?thesis
      by (auto simp: run_step_in_session_def now_def Let_def split: prod.splits option.splits)
  next
    case (Some e)
    with assms t f show ?thesis
      by (auto simp: run_step_in_session_def now_def except_block_def Let_def
          split: prod.splits option.splits)
  qed
qed

lemma run_step_step: "run_step_in_session E st s = (Inr r, s') \<Longrightarrow> step r = st"
  using run_step_cases[of E st "fst s" "snd s" r s'] by simp

lemma run_step_status_cases:
  assumes "run_step_in_session E st s = (Inr r, s')"
  shows "status r \<in> {''passed'', ''failed'', ''error''}"
proof -
  obtain ag tr where s: "s = (ag, tr)" by (cases s)
  from run_step_cases[OF assms[unfolded s]] show ?thesis
    by (auto dest!: try_block_returns)
qed

text \<open>The definitions to unfold when a run is evaluated on a concrete input.\<close>

lemmas eval =
  run_scenario_def scenario_body_def scenario_try_def setup_phase_def main_phase_def
  teardown_phase_def scenario_status_def scenario_banner_def scenario_summary_def
  run_suite_def suite_banner_def
  run_step_in_session_def now_def try_block_def except_block_def dispatch_def asserted_def
  in_step_def call_tool_in_session_def classify_def failure_screenshot_def
  save_first_image_def save_screenshot_def pending_def log_def status_line_def
  scripted_def ticks_def is_log_def ascii_stdout_def stdout_blocks_at_def
  text_result_def click_fails_def click_fails_screenshot_raises_def
  click_fails_with_image_def
  transport_down_def tool_error_def table_page_def refuses_def refuses_second_def
  test_step_def test_scenario_def test_suite_def new_agent_def quiet_agent_def
  default_config_def
  step_buy_def step_check_def step_cleanup_def step_table_def setup_fails_def main_fails_def
  or_str_def or_int_def verdict_def failure_def item_text_def error_result_def Let_def

subsection \<open>An exception in the dispatch\<close>

text \<open>
  Claim C6, as the code has it. When the dispatch of the step's action raises \<open>e\<close>, the
  handler of the step catches it: the result has status \<open>error\<close> and message \<open>e\<close>, and
  the end time and the duration (the elapsed microseconds over \<open>10^6\<close>) are recorded all
  the same. That result is what \<open>run_step_in_session\<close> returns, provided the two log
  lines written on the way can be printed: the \<open>Step error\<close> line inside the handler and
  the status line after the \<open>try\<close> statement. An exception raised by printing either
  of them leaves \<open>run_step_in_session\<close>, and no result is returned.
\<close>

theorem step_exception_caught:
  assumes lg: "log E ag (''Executing step: '' @ name st) ''STEP'' (tr @ [Clock]) = (None, tr0)"
    and d: "dispatch E st (pending st (clock E tr), ag, tr0) = (Inl e, (res, ag1, tr1))"
  shows "run_step_in_session E st (ag, tr) =
     (case log E ag (''Step error: '' @ e) ''ERROR'' tr1 of
        (Some e1, tr2) \<Rightarrow> (Inl e1, ag, tr2)
      | (None, tr2) \<Rightarrow>
          (case log E ag (status_line E (error_result st (clock E tr) e (clock E tr2)))
                  ''INFO'' (tr2 @ [Clock]) of
             (Some e2, tr3) \<Rightarrow> (Inl e2, ag, tr3)
           | (None, tr3) \<Rightarrow> (Inr (error_result st (clock E tr) e (clock E tr2)), ag, tr3)))"
proof -
  from dispatch_raise_frame[OF d] have r: "res = pending st (clock E tr)" and a: "ag1 = ag"
    by simp_all
  have t: "try_block E st (pending st (clock E tr), ag, tr @ [Clock])
             = (Some e, (pending st (clock E tr), ag, tr1))"
    using d lg by (simp add: try_block_def r a)
  have p: "\<And>t1. (pending st (clock E tr))\<lparr>status := ''error'', message := e,
                  end_time := Some t1, duration := of_int (t1 - clock E tr) / 1000000\<rparr>
               = error_result st (clock E tr) e t1"
    by (simp add: pending_def error_result_def)
  show ?thesis
    by (simp add: run_step_in_session_def now_def t except_block_def Let_def p
        del: of_int_diff split: prod.splits option.splits)
qed

theorem step_exception_caught_witness:
  "run_step_in_session (scripted transport_down) step_buy (new_agent, []) =
     (Inr (error_result step_buy 0 ''Connection closed'' 2), new_agent,
      [Clock, Log ''STEP'' ''Executing step: Buy'',
       Call ''browser_click'' [(''selector'', AStr ''#buy'')],
       Log ''ERROR'' ''Step error: Connection closed'', Clock,
       Log ''INFO''
         (status_line (scripted transport_down)
            (error_result step_buy 0 ''Connection closed'' 2))])"
proof -
  have lg: "log (scripted transport_down) new_agent (''Executing step: '' @ name step_buy)
              ''STEP'' ([] @ [Clock]) = (None, [Clock, Log ''STEP'' ''Executing step: Buy''])"
    by (simp add: eval)
  have d: "dispatch (scripted transport_down) step_buy
             (pending step_buy (clock (scripted transport_down) []), new_agent,
              [Clock, Log ''STEP'' ''Executing step: Buy''])
           = (Inl ''Connection closed'',
              (pending step_buy 0, new_agent,
               [Clock, Log ''STEP'' ''Executing step: Buy'',
                Call ''browser_click'' [(''selector'', AStr ''#buy'')]]))"
    by (simp add: eval)
  from step_exception_caught[OF lg d] show ?thesis
    by (simp add: log_def scripted_def ticks_def is_log_def new_agent_def default_config_def)
qed

text \<open>
  Claim C6 as stated fails: the click raises in the dispatch and is caught, but the
  standard output encodes ASCII only, the status line starts with a warning sign, and the
  exception raised by printing it leaves \<open>run_step_in_session\<close>.
\<close>

theorem step_exception_escapes_through_log:
  "fst (dispatch (ascii_stdout (scripted transport_down)) step_buy
          (pending step_buy 0, new_agent, [Clock, Log ''STEP'' ''Executing step: Buy'']))
     = Inl ''Connection closed'' \<and>
   fst (run_step_in_session (ascii_stdout (scripted transport_down)) step_buy (new_agent, []))
     = Inl ''ordinal not in range(128)''"
  by (simp add: eval status_icon_def quoted_def)

subsection \<open>The screenshot taken on failure\<close>

lemma dispatch_not_success:
  assumes "dispatch E st (res, ag, tr) = (Inr ar, (res', ag', tr'))" and "\<not> success ar"
  shows "res' = res"
proof -
  consider "action st = ''screenshot''" | "action st \<noteq> ''screenshot''" by blast
  then show ?thesis
  proof cases
    case 1
    with assms show ?thesis
      by (auto simp: dispatch_def save_first_image_def
          split: prod.splits sum.splits option.splits)
  next
    case 2
    with assms(1) show ?thesis
      by (auto simp: dispatch_def split: if_splits prod.splits sum.splits option.splits
          dest!: in_step_frame asserted_frame)
  qed
qed

lemma failure_screenshot_outcome:
  assumes "status res = ''failed''" "screenshot_on_failure st"
    and "failure_screenshot E st (res, ag, tr) = (exc, (res', ag', tr'))"
  shows "ag' = ag \<and> calls tr' = calls tr @ [(''browser_screenshot'', [])] \<and>
         exc = capture_error E ag (''failure_'' @ name st) tr \<and>
         status res' = status res \<and> message res' = message res \<and>
         (exc = None \<longrightarrow>
            screenshot res' =
              (case capture_image E tr of
                 None \<Rightarrow> screenshot res
               | Some d \<Rightarrow> capture_path E (config ag) (''failure_'' @ name st) tr))"
  using assms
  by (auto simp: failure_screenshot_def call_tool_in_session_eq save_first_image_def
        save_screenshot_def now_def capture_error_def capture_image_def capture_path_def
        calls_append calls_simps Let_def log_def
      split: sum.splits option.splits if_splits)

lemma run_step_finish:
  assumes t: "try_block E st (pending st (clock E tr), ag, tr @ [Clock]) = (exc, (res, ag1, tr1))"
    and run: "run_step_in_session E st (ag, tr) = (x, s')"
  shows "\<exists>tr2. s' = (ag1, tr2) \<and> calls tr2 = calls tr1 \<and>
           (\<forall>r. x = Inr r \<longrightarrow>
              status r = (case exc of None \<Rightarrow> status res | Some e \<Rightarrow> ''error'') \<and>
              message r = (case exc of None \<Rightarrow> message res | Some e \<Rightarrow> e) \<and>
              (exc = None \<longrightarrow> screenshot r = screenshot res)) \<and>
           (\<forall>e'. x = Inl e' \<longrightarrow>
              verbose (config ag1) \<and> (\<exists>tr' level msg. print_line E tr' level msg = Some e'))"
proof -
  define handled where "handled = (case exc of None \<Rightarrow> (None, (res, ag1, tr1))
                          | Some e \<Rightarrow> except_block E e (res, ag1, tr1))"
  have "\<exists>x1 res1 tr2. handled = (x1, (res1, ag1, tr2))"
    unfolding handled_def by (cases exc) (auto simp: except_block_def split: prod.splits)
  then obtain x1 res1 tr2 where h: "handled = (x1, (res1, ag1, tr2))" by blast
  have c1: "calls tr2 = calls tr1"
    using h unfolding handled_def
    by (cases exc) (auto simp: except_block_def split: prod.splits dest: log_calls)
  have r1: "x1 = None \<longrightarrow>
       status res1 = (case exc of None \<Rightarrow> status res | Some e \<Rightarrow> ''error'') \<and>
       message res1 = (case exc of None \<Rightarrow> message res | Some e \<Rightarrow> e) \<and>
       (exc = None \<longrightarrow> screenshot res1 = screenshot res)"
    using h unfolding handled_def
    by (cases exc) (auto simp: except_block_def split: prod.splits)
  have e1: "\<forall>e'. x1 = Some e' \<longrightarrow>
       verbose (config ag1) \<and> (\<exists>tr' level msg. print_line E tr' level msg = Some e')"
    using h unfolding handled_def
    by (cases exc) (auto simp: except_block_def split: prod.splits dest!: log_raises)
  define result where "result = res1\<lparr>end_time := Some (clock E tr2),
     duration := of_int (clock E tr2 - clock E tr) / 1000000\<rparr>"
  obtain x2 tr3 where l2: "log E ag1 (status_line E result) ''INFO'' (tr2 @ [Clock]) = (x2, tr3)"
    by (cases "log E ag1 (status_line E result) ''INFO'' (tr2 @ [Clock])")
  have c2: "calls tr3 = calls tr2"
    using log_calls[OF l2] by (simp add: calls_append calls_simps)
  have unfold: "run_step_in_session E st (ag, tr) =
     (case x1 of
        Some e' \<Rightarrow> (Inl e', ag1, tr2)
      | None \<Rightarrow> (case x2 of Some e' \<Rightarrow> (Inl e', ag1, tr3) | None \<Rightarrow> (Inr result, ag1, tr3)))"
    using h l2 unfolding handled_def result_def
    by (simp add: run_step_in_session_def now_def t Let_def del: of_int_diff
        split: option.splits)
  show ?thesis
  proof (cases x1)
    case (Some e')
    with unfold run c1 e1 show ?thesis by auto
  next
    case None
    note n1 = this
    show ?thesis
    proof (cases x2)
      case (Some e')
      from log_raises[OF l2[unfolded Some]] unfold run n1 Some c1 c2 show ?thesis by auto
    next
      case None
      with unfold run n1 c1 c2 r1 show ?thesis by (auto simp: result_def)
    qed
  qed
qed

text \<open>
  Claim C5, as the code has it. When the dispatch classifies a step as failed and
  \<open>screenshot_on_failure\<close> is set, exactly one further tool invocation is made, a
  \<open>browser_screenshot\<close> with no arguments. A capture that raises nothing leaves the step
  failed with its message, whether or not it yields an image; an image is saved under
  the name \<open>failure_<step name>\<close> and its path recorded on the result. A capture that
  raises \<open>e\<close>, in the invocation, in saving the image or in logging the saved path,
  turns the step's status into \<open>error\<close> and its message into \<open>e\<close>. This is the result
  that the run returns; the run returns none only when printing a log line raises.
\<close>

theorem failure_screenshot_attempt:
  assumes lg: "log E ag (''Executing step: '' @ name st) ''STEP'' (tr @ [Clock]) = (None, tr0)"
    and d: "dispatch E st (pending st (clock E tr), ag, tr0) = (Inr ar, (res, ag1, tr1))"
    and f: "\<not> success ar" and sf: "screenshot_on_failure st"
  shows "\<exists>x tr2. run_step_in_session E st (ag, tr) = (x, ag1, tr2) \<and>
           calls tr2 = calls tr1 @ [(''browser_screenshot'', [])] \<and>
           (\<forall>r. x = Inr r \<longrightarrow>
              (case capture_error E ag1 (''failure_'' @ name st) tr1 of
                 None \<Rightarrow>
                   status r = ''failed'' \<and>
                   message r = (case error ar of None \<Rightarrow> [] | Some m \<Rightarrow> m) \<and>
                   screenshot r =
                     (case capture_image E tr1 of
                        None \<Rightarrow> []
                      | Some d \<Rightarrow> capture_path E (config ag1) (''failure_'' @ name st) tr1)
               | Some e \<Rightarrow> status r = ''error'' \<and> message r = e)) \<and>
           (\<forall>e'. x = Inl e' \<longrightarrow>
              verbose (config ag1) \<and> (\<exists>tr' level msg. print_line E tr' level msg = Some e'))"
proof -
  obtain exc res2 ag2 tr2 where
    tb: "try_block E st (pending st (clock E tr), ag, tr @ [Clock]) = (exc, (res2, ag2, tr2))"
    by (metis prod_cases3)
  then have fs: "failure_screenshot E st (classify ar res, ag1, tr1) = (exc, (res2, ag2, tr2))"
    using lg d by (simp add: try_block_def)
  have "res = pending st (clock E tr)" using dispatch_not_success[OF d f] .
  then have sc: "screenshot (classify ar res) = []" by (simp add: classify_def pending_def)
  have cl: "status (classify ar res) = ''failed''"
    and ms: "message (classify ar res) = (case error ar of None \<Rightarrow> [] | Some m \<Rightarrow> m)"
    by (simp_all add: classify_def f)
  define ce where "ce = capture_error E ag1 (''failure_'' @ name st) tr1"
  from failure_screenshot_outcome[OF cl sf fs] cl ms sc
  have facts: "ag2 = ag1" "calls tr2 = calls tr1 @ [(''browser_screenshot'', [])]"
    "exc = ce"
    "status res2 = ''failed''" "message res2 = (case error ar of None \<Rightarrow> [] | Some m \<Rightarrow> m)"
    "ce = None \<longrightarrow> screenshot res2 =
       (case capture_image E tr1 of
          None \<Rightarrow> []
        | Some d \<Rightarrow> capture_path E (config ag1) (''failure_'' @ name st) tr1)"
    by (auto simp: ce_def split: option.splits)
  obtain x s' where run: "run_step_in_session E st (ag, tr) = (x, s')"
    by (cases "run_step_in_session E st (ag, tr)")
  from run_step_finish[OF tb run] obtain tr3 where
    fin: "s' = (ag2, tr3)" "calls tr3 = calls tr2"
      "\<forall>r. x = Inr r \<longrightarrow>
          status r = (case exc of None \<Rightarrow> status res2 | Some e \<Rightarrow> ''error'') \<and>
          message r = (case exc of None \<Rightarrow> message res2 | Some e \<Rightarrow> e) \<and>
          (exc = None \<longrightarrow> screenshot r = screenshot res2)"
      "\<forall>e'. x = Inl e' \<longrightarrow>
          verbose (config ag2) \<and> (\<exists>tr' level msg. print_line E tr' level msg = Some e')"
    by blast
  have "run_step_in_session E st (ag, tr) = (x, ag1, tr3)"
    using run fin(1) facts(1) by simp
  moreover have "calls tr3 = calls tr1 @ [(''browser_screenshot'', [])]"
    using fin(2) facts(2) by simp
  moreover have "\<forall>r. x = Inr r \<longrightarrow>
              (case ce of
                 None \<Rightarrow>
                   status r = ''failed'' \<and>
                   message r = (case error ar of None \<Rightarrow> [] | Some m \<Rightarrow> m) \<and>
                   screenshot r =
                     (case capture_image E tr1 of
                        None \<Rightarrow> []
                      | Some d \<Rightarrow> capture_path E (config ag1) (''failure_'' @ name st) tr1)
               | Some e \<Rightarrow> status r = ''error'' \<and> message r = e)"
    using fin(3) facts(3,4,5,6) by (cases ce) simp_all
  moreover have "\<forall>e'. x = Inl e' \<longrightarrow>
              verbose (config ag1) \<and> (\<exists>tr' level msg. print_line E tr' level msg = Some e')"
    using fin(4) facts(1) by simp
  ultimately show ?thesis unfolding ce_def by blast
qed

theorem failure_screenshot_attempt_witness:
  "status (projr (fst (run_step_in_session (scripted click_fails_with_image) step_buy
     (new_agent, [])))) = ''failed'' \<and>
   message (projr (fst (run_step_in_session (scripted click_fails_with_image) step_buy
     (new_agent, [])))) = ''Error: no element matches #buy'' \<and>
   screenshot (projr (fst (run_step_in_session (scripted click_fails_with_image) step_buy
     (new_agent, [])))) = ''/root/payverse/qa_screenshots/failure_Buy_20240101_120000.png'' \<and>
   calls (snd (snd (run_step_in_session (scripted click_fails_with_image) step_buy
     (new_agent, []))))
     = [(''browser_click'', [(''selector'', AStr ''#buy'')]), (''browser_screenshot'', [])]"
proof -
  define R where "R = projr (fst (run_step_in_session (scripted click_fails_with_image)
     step_buy (new_agent, [])))"
  have run: "fst (run_step_in_session (scripted click_fails_with_image) step_buy (new_agent, []))
     = Inr R"
    unfolding R_def by (simp add: eval)
  have lg: "log (scripted click_fails_with_image) new_agent
              (''Executing step: '' @ name step_buy) ''STEP'' ([] @ [Clock])
            = (None, [Clock, Log ''STEP'' ''Executing step: Buy''])"
    by (simp add: eval)
  have d: "dispatch (scripted click_fails_with_image) step_buy
             (pending step_buy (clock (scripted click_fails_with_image) []), new_agent,
              [Clock, Log ''STEP'' ''Executing step: Buy''])
           = (Inr \<lparr>success = False, content = [TextItem ''Error: no element matches #buy''],
                    error = Some ''Error: no element matches #buy''\<rparr>,
              (pending step_buy 0, new_agent,
               [Clock, Log ''STEP'' ''Executing step: Buy'',
                Call ''browser_click'' [(''selector'', AStr ''#buy'')]]))"
    by (simp add: eval)
  have f: "\<not> success \<lparr>success = False, content = [TextItem ''Error: no element matches #buy''],
                    error = Some ''Error: no element matches #buy''\<rparr>"
    by simp
  have sf: "screenshot_on_failure step_buy" by (simp add: eval)
  from failure_screenshot_attempt[OF lg d f sf] run show ?thesis
    unfolding R_def[symmetric]
    by (auto simp add: eval calls_def path_join_def startswith_def capture_error_def
        capture_image_def capture_path_def error_texts_def texts_def normalized_part_def
        List.map_filter_simps suffix_to_prefix)
qed

text \<open>
  Claim C5 as stated fails: the click is classified as failed, the screenshot invocation
  then raises, and the step ends with status \<open>error\<close>.
\<close>

theorem failure_screenshot_exception_escalates:
  "fst (dispatch (scripted click_fails_screenshot_raises) step_buy
          (pending step_buy 0, new_agent, [Clock, Log ''STEP'' ''Executing step: Buy'']))
     = Inr \<lparr>success = False, content = [TextItem ''Error: no element matches #buy''],
            error = Some ''Error: no element matches #buy''\<rparr> \<and>
   screenshot_on_failure step_buy \<and>
   respond (scripted click_fails_screenshot_raises)
       [Clock, Log ''STEP'' ''Executing step: Buy'',
        Call ''browser_click'' [(''selector'', AStr ''#buy'')]] ''browser_screenshot'' []
     = Inl ''Connection closed'' \<and>
   fst (run_step_in_session (scripted click_fails_screenshot_raises) step_buy (new_agent, []))
     = Inr \<lparr>step = step_buy, status = ''error'', message = ''Connection closed'',
            screenshot = [], start_time = Some 0, end_time = Some 3,
            duration = 3 / 1000000, actual_value = PNone, error_trace = []\<rparr>"
  by (simp add: eval)

subsection \<open>Tag selectors written with capitals\<close>

lemma dispatch_assert_element:
  assumes "action st = ''assert_element''"
    and "\<And>html. \<not> selector_matches_html (target st) html"
    and "dispatch E st s = (Inr ar, s1)"
  shows "\<not> success ar"
  using assms
  by (auto simp: dispatch_def asserted_def verdict_def failure_def
      split: prod.splits sum.splits if_splits option.splits)

text \<open>
  Claim C10. A selector that starts with neither \<open>#\<close> nor \<open>.\<close> and contains an ASCII
  capital matches no document: the heuristic looks for \<open><\<close> followed by the selector in
  the lowercased document, which holds no ASCII capital. So an \<open>assert_element\<close> step with
  such a target never passes: every result that a run of it returns is failed, or in
  error when something raised.
\<close>

theorem uppercase_tag_selector_never_matches:
  assumes "\<not> startswith selector ''#''" "\<not> startswith selector ''.''"
    and "c \<in> set selector" "is_ascii_upper c"
  shows "selector_matches_html selector html = False \<and>
         (action st = ''assert_element'' \<and> target st = selector \<and>
          fst (run_step_in_session E st s) = Inr r \<longrightarrow>
            status r \<in> {''failed'', ''error''})"
proof -
  have no: "\<And>h. \<not> selector_matches_html selector h"
    using assms by (rule uppercase_selector_no_match)
  {
    assume a: "action st = ''assert_element''" and t: "target st = selector"
      and run: "fst (run_step_in_session E st s) = Inr r"
    obtain ag tr where s: "s = (ag, tr)" by (cases s)
    from run s have run': "run_step_in_session E st (ag, tr)
        = (Inr r, snd (run_step_in_session E st (ag, tr)))"
      by (metis prod.collapse)
    from run_step_cases[OF run'] consider "status r = ''error''"
      | res ag1 tr1 where "try_block E st (pending st (clock E tr), ag, tr @ [Clock])
                            = (None, (res, ag1, tr1))" "status r = status res"
      by blast
    then have "status r \<in> {''failed'', ''error''}"
    proof cases
      case 1
      then show ?thesis by simp
    next
      case 2
      from try_block_returns[OF 2(1)] obtain tr0 ar s1 where
        d: "dispatch E st (pending st (clock E tr), ag, tr0) = (Inr ar, s1)"
        and st: "status res = (if success ar then ''passed'' else ''failed'')"
        by blast
      have "\<not> success ar" using dispatch_assert_element[OF a _ d] no t by simp
      with st 2(2) show ?thesis by simp
    qed
  }
  with no show ?thesis by simp
qed

theorem uppercase_tag_selector_never_matches_witness:
  "selector_matches_html ''TABLE'' ''<TABLE><TR><TD>1</TD></TR></TABLE>'' = False \<and>
   status (projr (fst (run_step_in_session (scripted table_page) step_table (new_agent, []))))
     = ''failed''"
proof -
  define R where "R = projr (fst (run_step_in_session (scripted table_page) step_table
     (new_agent, [])))"
  have 1: "\<not> startswith ''TABLE'' ''#''" and 2: "\<not> startswith ''TABLE'' ''.''"
    by (simp_all add: startswith_def)
  have 3: "CHR ''T'' \<in> set ''TABLE''" by simp
  have 4: "is_ascii_upper CHR ''T''" by (simp add: is_ascii_upper_def)
  have 5: "action step_table = ''assert_element'' \<and> target step_table = ''TABLE''"
    by (simp add: eval)
  have 6: "fst (run_step_in_session (scripted table_page) step_table (new_agent, [])) = Inr R"
    unfolding R_def by (simp add: eval)
  from uppercase_tag_selector_never_matches[OF 1 2 3 4,
      of "''<TABLE><TR><TD>1</TD></TR></TABLE>''" step_table "scripted table_page"
         "(new_agent, [])" R] 5 6
  have "selector_matches_html ''TABLE'' ''<TABLE><TR><TD>1</TD></TR></TABLE>'' = False"
    and "status R \<in> {''failed'', ''error''}"
    by simp_all
  moreover have "status R \<noteq> ''error''"
    unfolding R_def by (simp add: eval)
  ultimately show ?thesis unfolding R_def by simp
qed

section \<open>The scenario runner\<close>

subsection \<open>Steps executed in order\<close>

lemma execute_in_order_steps:
  "execute_in_order E sts s = (Inr rs, s') \<Longrightarrow> map step rs = sts"
proof (induction sts arbitrary: rs s s')
  case Nil
  then show ?case by simp
next
  case (Cons st sts)
  from Cons.prems obtain r s1 rs' where
    r: "run_step_in_session E st s = (Inr r, s1)"
    and e: "execute_in_order E sts s1 = (Inr rs', s')" and rs: "rs = r # rs'"
    by (auto split: prod.splits sum.splits)
  from run_step_step[OF r] Cons.IH[OF e] rs show ?case by simp
qed

subsection \<open>The main loop\<close>

lemma run_main_acc:
  "run_main E sts (rs, ag, tr) =
     (case run_main E sts ([], ag, tr) of (x, (ms, s')) \<Rightarrow> (x, (rs @ ms, s')))"
proof (induction sts arbitrary: rs ag tr)
  case Nil
  show ?case by simp
next
  case (Cons st sts)
  obtain x ag' tr' where r: "run_step_in_session E st (ag, tr) = (x, ag', tr')"
    by (metis prod_cases3)
  show ?case
  proof (cases x)
    case (Inl e)
    with r show ?thesis by simp
  next
    case (Inr r0)
    note ih1 = Cons.IH[of "rs @ [r0]" ag' tr'] and ih2 = Cons.IH[of "[r0]" ag' tr']
    show ?thesis by (simp add: r Inr ih1 ih2 split: prod.splits)
  qed
qed

lemma run_main_steps:
  "run_main E sts ([], ag, tr) = (x, (ms, s')) \<Longrightarrow> map step ms = take (length ms) sts"
proof (induction sts arbitrary: ms ag tr s' x)
  case Nil
  then show ?case by simp
next
  case (Cons st sts)
  obtain y ag' tr' where r: "run_step_in_session E st (ag, tr) = (y, ag', tr')"
    by (metis prod_cases3)
  show ?case
  proof (cases y)
    case (Inl e)
    with Cons.prems r show ?thesis by simp
  next
    case (Inr r0)
    have sr: "step r0 = st" using r[unfolded Inr] by (rule run_step_step)
    show ?thesis
    proof (cases "status r0 \<noteq> ''passed'' \<and> critical st")
      case True
      with Cons.prems r Inr sr show ?thesis by (auto split: prod.splits)
    next
      case False
      obtain x' ms' s'' where m: "run_main E sts ([], ag', tr') = (x', (ms', s''))"
        by (metis prod_cases3)
      from Cons.prems r Inr False m have "ms = r0 # ms'"
        by (auto simp: run_main_acc[of E sts "[r0]"])
      with Cons.IH[OF m] sr show ?thesis by simp
    qed
  qed
qed

lemma run_main_stops:
  "run_main E sts ([], ag, tr) = (x, (ms, ag1, tr1)) \<Longrightarrow> k < length ms \<Longrightarrow>
   critical (step (ms ! k)) \<Longrightarrow> status (ms ! k) \<noteq> ''passed'' \<Longrightarrow>
   length ms = Suc k \<and>
   (\<exists>tr'. execute_in_order E (take (Suc k) sts) (ag, tr) = (Inr ms, ag1, tr') \<and>
          log E ag1 ''Critical step failed, stopping scenario'' ''ERROR'' tr' = (x, tr1))"
proof (induction sts arbitrary: ms ag tr k)
  case Nil
  then show ?case by simp
next
  case (Cons st sts)
  obtain y ag' tr' where r: "run_step_in_session E st (ag, tr) = (y, ag', tr')"
    by (metis prod_cases3)
  show ?case
  proof (cases y)
    case (Inl e)
    with Cons.prems r show ?thesis by simp
  next
    case (Inr r0)
    have sr: "step r0 = st" using r[unfolded Inr] by (rule run_step_step)
    show ?thesis
    proof (cases "status r0 \<noteq> ''passed'' \<and> critical st")
      case True
      with Cons.prems r Inr show ?thesis by (auto split: prod.splits)
    next
      case False
      obtain x' ms' s'' where m: "run_main E sts ([], ag', tr') = (x', (ms', s''))"
        by (metis prod_cases3)
      from Cons.prems(1) r Inr False m
      have ms: "ms = r0 # ms'" and xx: "x' = x" and ss: "s'' = (ag1, tr1)"
        by (auto simp: run_main_acc[of E sts "[r0]"])
      show ?thesis
      proof (cases k)
        case 0
        with Cons.prems ms sr False show ?thesis by auto
      next
        case (Suc j)
        with Cons.prems ms
        have "j < length ms'" "critical (step (ms' ! j))" "status (ms' ! j) \<noteq> ''passed''"
          by simp_all
        from Cons.IH[OF m[unfolded xx ss] this] ms Suc r Inr show ?thesis by auto
      qed
    qed
  qed
qed

subsection \<open>The teardown loop\<close>

lemma run_teardown_acc:
  "run_teardown E sts (rs, ag, tr) =
     (case run_teardown E sts ([], ag, tr) of (x, (ts, s')) \<Rightarrow> (x, (rs @ ts, s')))"
proof (induction sts arbitrary: rs ag tr)
  case Nil
  show ?case by simp
next
  case (Cons st sts)
  obtain x ag' tr' where r: "run_step_in_session E st (ag, tr) = (x, ag', tr')"
    by (metis prod_cases3)
  show ?case
  proof (cases x)
    case (Inl e)
    with r show ?thesis by simp
  next
    case (Inr r0)
    note ih1 = Cons.IH[of "rs @ [r0]" ag' tr'] and ih2 = Cons.IH[of "[r0]" ag' tr']
    show ?thesis by (simp add: r Inr ih1 ih2 split: prod.splits)
  qed
qed

lemma run_teardown_steps:
  "run_teardown E sts ([], ag, tr) = (x, (ts, s')) \<Longrightarrow> map step ts = take (length ts) sts"
proof (induction sts arbitrary: ts ag tr s' x)
  case Nil
  then show ?case by simp
next
  case (Cons st sts)
  obtain y ag' tr' where r: "run_step_in_session E st (ag, tr) = (y, ag', tr')"
    by (metis prod_cases3)
  show ?case
  proof (cases y)
    case (Inl e)
    with Cons.prems r show ?thesis by simp
  next
    case (Inr r0)
    have sr: "step r0 = st" using r[unfolded Inr] by (rule run_step_step)
    obtain x' ts' s'' where m: "run_teardown E sts ([], ag', tr') = (x', (ts', s''))"
      by (metis prod_cases3)
    from Cons.prems r Inr m have "ts = r0 # ts'"
      by (auto simp: run_teardown_acc[of E sts "[r0]"])
    with Cons.IH[OF m] sr show ?thesis by simp
  qed
qed

lemma run_teardown_all:
  "run_teardown E sts ([], ag, tr) = (None, (ts, s')) \<Longrightarrow>
   execute_in_order E sts (ag, tr) = (Inr ts, s')"
proof (induction sts arbitrary: ts ag tr)
  case Nil
  then show ?case by simp
next
  case (Cons st sts)
  obtain y ag' tr' where r: "run_step_in_session E st (ag, tr) = (y, ag', tr')"
    by (metis prod_cases3)
  show ?case
  proof (cases y)
    case (Inl e)
    with Cons.prems r show ?thesis by simp
  next
    case (Inr r0)
    obtain x' ts' s'' where m: "run_teardown E sts ([], ag', tr') = (x', (ts', s''))"
      by (metis prod_cases3)
    from Cons.prems r Inr m have "ts = r0 # ts'" "x' = None" "s'' = s'"
      by (auto simp: run_teardown_acc[of E sts "[r0]"])
    with Cons.IH[of ag' tr' ts'] m r Inr show ?thesis by simp
  qed
qed

subsection \<open>The setup loop\<close>

lemma run_setup_acc:
  "run_setup E sts (rs, ag, tr) =
     (case run_setup E sts ([], ag, tr) of (x, (ms, s')) \<Rightarrow> (x, (rs @ ms, s')))"
proof (induction sts arbitrary: rs ag tr)
  case Nil
  show ?case by simp
next
  case (Cons st sts)
  obtain x ag' tr' where r: "run_step_in_session E st (ag, tr) = (x, ag', tr')"
    by (metis prod_cases3)
  show ?case
  proof (cases x)
    case (Inl e)
    with r show ?thesis by simp
  next
    case (Inr r0)
    note ih1 = Cons.IH[of "rs @ [r0]" ag' tr'] and ih2 = Cons.IH[of "[r0]" ag' tr']
    show ?thesis by (simp add: r Inr ih1 ih2 split: prod.splits)
  qed
qed

lemma run_setup_steps:
  "run_setup E sts ([], ag, tr) = (x, (ms, s')) \<Longrightarrow> map step ms = take (length ms) sts"
proof (induction sts arbitrary: ms ag tr s' x)
  case Nil
  then show ?case by simp
next
  case (Cons st sts)
  obtain y ag' tr' where r: "run_step_in_session E st (ag, tr) = (y, ag', tr')"
    by (metis prod_cases3)
  show ?case
  proof (cases y)
    case (Inl e)
    with Cons.prems r show ?thesis by simp
  next
    case (Inr r0)
    have sr: "step r0 = st" using r[unfolded Inr] by (rule run_step_step)
    show ?thesis
    proof (cases "status r0 \<noteq> ''passed'' \<and> critical st")
      case True
      with Cons.prems r Inr sr show ?thesis by auto
    next
      case False
      obtain x' ms' s'' where m: "run_setup E sts ([], ag', tr') = (x', (ms', s''))"
        by (metis prod_cases3)
      from Cons.prems r Inr False m have "ms = r0 # ms'"
        by (auto simp: run_setup_acc[of E sts "[r0]"])
      with Cons.IH[OF m] sr show ?thesis by simp
    qed
  qed
qed

lemma run_setup_stops:
  "run_setup E sts ([], ag, tr) = (x, (ms, s')) \<Longrightarrow> k < length ms \<Longrightarrow>
   critical (step (ms ! k)) \<Longrightarrow> status (ms ! k) \<noteq> ''passed'' \<Longrightarrow>
   length ms = Suc k \<and> x = Some (''Critical setup step failed: '' @ name (step (ms ! k))) \<and>
   execute_in_order E (take (Suc k) sts) (ag, tr) = (Inr ms, s')"
proof (induction sts arbitrary: ms ag tr k)
  case Nil
  then show ?case by simp
next
  case (Cons st sts)
  obtain y ag' tr' where r: "run_step_in_session E st (ag, tr) = (y, ag', tr')"
    by (metis prod_cases3)
  show ?case
  proof (cases y)
    case (Inl e)
    with Cons.prems r show ?thesis by simp
  next
    case (Inr r0)
    have sr: "step r0 = st" using r[unfolded Inr] by (rule run_step_step)
    show ?thesis
    proof (cases "status r0 \<noteq> ''passed'' \<and> critical st")
      case True
      with Cons.prems r Inr sr show ?thesis by auto
    next
      case False
      obtain x' ms' s'' where m: "run_setup E sts ([], ag', tr') = (x', (ms', s''))"
        by (metis prod_cases3)
      from Cons.prems(1) r Inr False m
      have ms: "ms = r0 # ms'" and xx: "x' = x" and ss: "s'' = s'"
        by (auto simp: run_setup_acc[of E sts "[r0]"])
      show ?thesis
      proof (cases k)
        case 0
        with Cons.prems ms sr False show ?thesis by auto
      next
        case (Suc j)
        with Cons.prems ms
        have "j < length ms'" "critical (step (ms' ! j))" "status (ms' ! j) \<noteq> ''passed''"
          by simp_all
        from Cons.IH[OF m[unfolded xx ss] this] ms Suc r Inr show ?thesis by auto
      qed
    qed
  qed
qed

lemma run_setup_statuses:
  "run_setup E sts ([], ag, tr) = (x, (ms, s')) \<Longrightarrow> r \<in> set ms \<Longrightarrow>
   status r \<in> {''passed'', ''failed'', ''error''}"
proof (induction sts arbitrary: ms ag tr s' x)
  case Nil
  then show ?case by simp
next
  case (Cons st sts)
  obtain y ag' tr' where r: "run_step_in_session E st (ag, tr) = (y, ag', tr')"
    by (metis prod_cases3)
  show ?case
  proof (cases y)
    case (Inl e)
    with Cons.prems r show ?thesis by simp
  next
    case (Inr r0)
    have sr: "status r0 \<in> {''passed'', ''failed'', ''error''}"
      using r[unfolded Inr] by (rule run_step_status_cases)
    obtain x' ms' s'' where m: "run_setup E sts ([], ag', tr') = (x', (ms', s''))"
      by (metis prod_cases3)
    from Cons.prems(1) r Inr m have "ms = [r0] \<or> ms = r0 # ms'"
      by (auto simp: run_setup_acc[of E sts "[r0]"] split: if_splits)
    with Cons.prems(2) Cons.IH[OF m] sr show ?thesis by auto
  qed
qed

subsection \<open>The phases of a scenario\<close>

lemma setup_phase_cases:
  assumes "setup_phase E sc ([], ag, tr) = (x, (ss, s1))"
  shows "(ss = [] \<and> (setup_steps sc = [] \<or> x \<noteq> None)) \<or>
         (setup_steps sc \<noteq> [] \<and>
          run_setup E (setup_steps sc)
            ([], ag, tr @ logged ag [(''Running setup steps...'', ''SETUP'')]) = (x, (ss, s1)))"
proof (cases "setup_steps sc = []")
  case True
  with assms show ?thesis by (simp add: setup_phase_def)
next
  case False
  obtain y tr' where l: "log E ag ''Running setup steps...'' ''SETUP'' tr = (y, tr')"
    by (cases "log E ag ''Running setup steps...'' ''SETUP'' tr")
  from log_trace[OF l] have tr': "tr' = tr @ logged ag [(''Running setup steps...'', ''SETUP'')]" .
  show ?thesis
  proof (cases y)
    case None
    with assms False l tr' show ?thesis by (simp add: setup_phase_def)
  next
    case (Some e)
    with assms False l show ?thesis by (auto simp: setup_phase_def)
  qed
qed

lemma main_phase_cases:
  assumes "main_phase E sc (rs, ag, tr) = (x, (rs', s2))"
  shows "(rs' = rs \<and> x \<noteq> None) \<or>
         (\<exists>ms. rs' = rs @ ms \<and>
            run_main E (steps sc) ([], ag, tr @ logged ag [(''Running test steps...'', ''TEST'')])
              = (x, (ms, s2)))"
proof -
  obtain y tr' where l: "log E ag ''Running test steps...'' ''TEST'' tr = (y, tr')"
    by (cases "log E ag ''Running test steps...'' ''TEST'' tr")
  from log_trace[OF l] have tr': "tr' = tr @ logged ag [(''Running test steps...'', ''TEST'')]" .
  show ?thesis
  proof (cases y)
    case None
    obtain x' ms s'' where m: "run_main E (steps sc) ([], ag, tr') = (x', (ms, s''))"
      by (metis prod_cases3)
    from assms l None m have "rs' = rs @ ms" "x' = x" "s'' = s2"
      by (auto simp: main_phase_def run_main_acc[of E "steps sc" rs])
    with m tr' show ?thesis by auto
  next
    case (Some e)
    with assms l show ?thesis by (auto simp: main_phase_def)
  qed
qed

lemma teardown_phase_cases:
  assumes "teardown_phase E sc (rs, ag, tr) = (x, (rs', s3))"
  shows "(rs' = rs \<and> (teardown_steps sc = [] \<and> x = None \<and> s3 = (ag, tr) \<or> x \<noteq> None)) \<or>
         (teardown_steps sc \<noteq> [] \<and>
          (\<exists>ts. rs' = rs @ ts \<and>
             run_teardown E (teardown_steps sc)
               ([], ag, tr @ logged ag [(''Running teardown steps...'', ''TEARDOWN'')])
               = (x, (ts, s3))))"
proof (cases "teardown_steps sc = []")
  case True
  with assms show ?thesis by (simp add: teardown_phase_def)
next
  case False
  obtain y tr' where l: "log E ag ''Running teardown steps...'' ''TEARDOWN'' tr = (y, tr')"
    by (cases "log E ag ''Running teardown steps...'' ''TEARDOWN'' tr")
  from log_trace[OF l]
  have tr': "tr' = tr @ logged ag [(''Running teardown steps...'', ''TEARDOWN'')]" .
  show ?thesis
  proof (cases y)
    case None
    obtain x' ts s'' where m: "run_teardown E (teardown_steps sc) ([], ag, tr') = (x', (ts, s''))"
      by (metis prod_cases3)
    from assms False l None m have "rs' = rs @ ts" "x' = x" "s'' = s3"
      by (auto simp: teardown_phase_def run_teardown_acc[of E "teardown_steps sc" rs])
    with m tr' False show ?thesis by auto
  next
    case (Some e)
    with assms False l show ?thesis by (auto simp: teardown_phase_def)
  qed
qed

lemma setup_phase_steps:
  "setup_phase E sc ([], ag, tr) = (x, (ss, s1)) \<Longrightarrow>
   map step ss = take (length ss) (setup_steps sc)"
  by (auto dest!: setup_phase_cases run_setup_steps)

lemma main_phase_steps:
  "main_phase E sc (rs, ag, tr) = (x, (rs', s2)) \<Longrightarrow>
   \<exists>ms. rs' = rs @ ms \<and> map step ms = take (length ms) (steps sc)"
  by (auto dest!: main_phase_cases run_main_steps)

lemma teardown_phase_steps:
  "teardown_phase E sc (rs, ag, tr) = (x, (rs', s3)) \<Longrightarrow>
   \<exists>ts. rs' = rs @ ts \<and> map step ts = take (length ts) (teardown_steps sc)"
  by (auto dest!: teardown_phase_cases run_teardown_steps)

subsection \<open>The scenario\<close>

lemma scenario_status_aggregate:
  "scenario_status rs = aggregate_status (map status rs)"
proof -
  have e: "(filter (\<lambda>r. status r = ''error'') rs \<noteq> []) = (''error'' \<in> set (map status rs))"
    by (induction rs) auto
  have f: "(filter (\<lambda>r. status r = ''failed'') rs \<noteq> []) = (''failed'' \<in> set (map status rs))"
    by (induction rs) auto
  show ?thesis
    unfolding scenario_status_def aggregate_status_def Let_def e f by simp
qed

lemma scenario_try_parts:
  assumes "scenario_try E sc (ag, tr) = (x, (rs, s'))"
  shows "\<exists>ss ms ts. rs = ss @ ms @ ts \<and>
      map step ss = take (length ss) (setup_steps sc) \<and>
      map step ms = take (length ms) (steps sc) \<and>
      map step ts = take (length ts) (teardown_steps sc)"
proof -
  obtain x1 ss ag0 tr0 where su: "setup_phase E sc ([], ag, tr) = (x1, (ss, ag0, tr0))"
    by (metis prod_cases3)
  have a: "map step ss = take (length ss) (setup_steps sc)" using setup_phase_steps[OF su] .
  show ?thesis
  proof (cases x1)
    case (Some e)
    with assms su have "rs = ss @ [] @ []" by (simp add: scenario_try_def)
    with a show ?thesis by (metis list.simps(8) list.size(3) take_eq_Nil)
  next
    case None
    note n1 = this
    obtain x2 rs2 ag1 tr1 where m: "main_phase E sc (ss, ag0, tr0) = (x2, (rs2, ag1, tr1))"
      by (metis prod_cases3)
    from main_phase_steps[OF m] obtain ms where
      ms: "rs2 = ss @ ms" "map step ms = take (length ms) (steps sc)" by blast
    show ?thesis
    proof (cases x2)
      case (Some e)
      with assms su n1 m ms have "rs = ss @ ms @ []" by (simp add: scenario_try_def)
      with a ms(2) show ?thesis by (metis list.simps(8) list.size(3) take_eq_Nil)
    next
      case None
      with assms su n1 m have t: "teardown_phase E sc (rs2, ag1, tr1) = (x, (rs, s'))"
        by (simp add: scenario_try_def)
      from teardown_phase_steps[OF t] obtain ts where
        "rs = rs2 @ ts" "map step ts = take (length ts) (teardown_steps sc)" by blast
      with a ms show ?thesis by auto
    qed
  qed
qed

lemma scenario_body_results:
  assumes "scenario_body E sc (ag, tr) = (x, (rs, s'))"
  shows "\<exists>y s''. scenario_try E sc (ag, tr) = (y, (rs, s''))"
proof -
  obtain y rs0 ag0 tr0 where t: "scenario_try E sc (ag, tr) = (y, (rs0, ag0, tr0))"
    by (metis prod_cases3)
  with assms have "rs0 = rs"
    by (cases y) (auto simp: scenario_body_def split: prod.splits)
  with t show ?thesis by simp
qed

lemma run_scenario_result:
  assumes "run_scenario E sc (ag, tr) = (Inr result, s')"
  shows "\<exists>ag1 tr1.
          scenario_body E sc (ag, tr @ logged ag (scenario_banner sc) @ [Clock, Open])
            = (None, (step_results result, ag1, tr1)) \<and>
          s' = (ag1\<lparr>test_results := test_results ag1 @ [result]\<rparr>,
                tr1 @ [Close, Clock] @ logged ag1 (scenario_summary E result)) \<and>
          result_status result = scenario_status (step_results result) \<and>
          scenario result = sc"
proof -
  obtain xb trb where b: "logs E ag (scenario_banner sc) tr = (xb, trb)"
    by (cases "logs E ag (scenario_banner sc) tr")
  from assms b have xb: "xb = None"
    by (cases xb) (simp_all add: run_scenario_def)
  from logs_trace[OF b[unfolded xb]] have trb: "trb = tr @ logged ag (scenario_banner sc)" .
  from assms b xb have cn: "connect E (trb @ [Clock]) = None"
    by (cases "connect E (trb @ [Clock])") (simp_all add: run_scenario_def now_def)
  obtain x rs ag1 tr2 where
    body: "scenario_body E sc (ag, trb @ [Clock, Open]) = (x, (rs, ag1, tr2))"
    by (metis prod_cases3)
  from assms b xb cn body have dc: "disconnect E tr2 = None"
    by (cases "disconnect E tr2") (simp_all add: run_scenario_def now_def)
  from assms b xb cn body dc have x: "x = None"
    by (cases x) (simp_all add: run_scenario_def now_def)
  define R where "R =
     \<lparr>scenario = sc, result_status = scenario_status rs, step_results = rs,
      result_start_time = Some (clock E trb),
      result_end_time = Some (clock E (tr2 @ [Close])),
      result_duration = of_int (clock E (tr2 @ [Close]) - clock E trb) / 1000000,
      error_message = []\<rparr>"
  define ag2 where "ag2 = ag1\<lparr>test_results := test_results ag1 @ [R]\<rparr>"
  obtain xs tr4 where
    sm: "logs E ag2 (scenario_summary E R) (tr2 @ [Close, Clock]) = (xs, tr4)"
    by (cases "logs E ag2 (scenario_summary E R) (tr2 @ [Close, Clock])")
  have unfold: "run_scenario E sc (ag, tr) =
      (case xs of Some e \<Rightarrow> (Inl e, ag2, tr4) | None \<Rightarrow> (Inr R, ag2, tr4))"
    using b xb cn body dc x sm unfolding R_def ag2_def
    by (simp add: run_scenario_def now_def Let_def del: of_int_diff split: option.splits)
  with assms have xs: "xs = None" and res: "result = R" and s': "s' = (ag2, tr4)"
    by (cases xs; simp)+
  from logs_trace[OF sm[unfolded xs]]
  have tr4: "tr4 = tr2 @ [Close, Clock] @ logged ag2 (scenario_summary E R)" by simp
  have lg: "logged ag2 = logged ag1" by (rule ext) (simp add: logged_def ag2_def)
  from body x trb res s' tr4 lg show ?thesis
    by (simp add: R_def ag2_def)
qed

subsection \<open>Status of a scenario\<close>

lemma aggregate_status_examples:
  "aggregate_status [''passed'', ''passed''] = ''passed''"
  "aggregate_status [''passed'', ''failed''] = ''failed''"
  "aggregate_status [''passed'', ''error''] = ''error''"
  "aggregate_status [''failed'', ''error''] = ''error''"
  by (simp_all add: aggregate_status_def)

text \<open>
  Claim C4. The status of a completed scenario run is \<open>error\<close> if any of its step results
  is an error, else \<open>failed\<close> if any is failed, else \<open>passed\<close>; the step results are those
  of the setup steps, the main steps and the teardown steps that ran, in that order, and
  all of them count alike.
\<close>

theorem scenario_status_precedence:
  assumes "run_scenario E sc (ag, tr) = (Inr result, s')"
  shows "result_status result = aggregate_status (map status (step_results result)) \<and>
         (\<exists>ss ms ts. step_results result = ss @ ms @ ts \<and>
             map step ss = take (length ss) (setup_steps sc) \<and>
             map step ms = take (length ms) (steps sc) \<and>
             map step ts = take (length ts) (teardown_steps sc))"
proof -
  from run_scenario_result[OF assms] obtain ag1 tr1 where
    st: "result_status result = scenario_status (step_results result)"
    and body: "scenario_body E sc (ag, tr @ logged ag (scenario_banner sc) @ [Clock, Open])
                 = (None, (step_results result, ag1, tr1))"
    by blast
  from scenario_body_results[OF body] obtain y s'' where
    "scenario_try E sc (ag, tr @ logged ag (scenario_banner sc) @ [Clock, Open])
       = (y, (step_results result, s''))" by blast
  from scenario_try_parts[OF this] st show ?thesis
    by (simp add: scenario_status_aggregate)
qed

theorem scenario_status_precedence_witness:
  "map status (step_results (projr (fst
      (run_scenario (scripted click_fails_screenshot_raises) main_fails (new_agent, [])))))
     = [''error'', ''passed''] \<and>
   result_status (projr (fst
      (run_scenario (scripted click_fails_screenshot_raises) main_fails (new_agent, []))))
     = ''error''"
proof -
  define R where "R = projr (fst
      (run_scenario (scripted click_fails_screenshot_raises) main_fails (new_agent, [])))"
  define S where "S = snd
      (run_scenario (scripted click_fails_screenshot_raises) main_fails (new_agent, []))"
  have run: "run_scenario (scripted click_fails_screenshot_raises) main_fails (new_agent, [])
      = (Inr R, S)"
    unfolding R_def S_def by (simp add: eval)
  have sts: "map status (step_results R) = [''error'', ''passed'']"
    unfolding R_def by (simp add: eval)
  from scenario_status_precedence[OF run] sts show ?thesis
    unfolding R_def by (simp add: aggregate_status_def)
qed

subsection \<open>A critical main step that does not pass\<close>

text \<open>
  Claim C3, as the code has it. In a completed run whose setup did not abort, a main step
  that is critical and whose result is not \<open>passed\<close> is the last main step executed: the
  main results are those of executing, in order, the main steps up to and including it,
  and the main phase does nothing more than log that the scenario stops. When that log
  line is printed and the teardown phase ends without an exception, every teardown step
  has been executed, in order, from the state the main phase left, and the teardown
  results follow the main results in the scenario's step results.
\<close>

theorem critical_main_failure_stops_main_steps:
  assumes run: "run_scenario E sc (ag, tr) = (Inr result, s')"
    and stp: "setup_phase E sc ([], ag, tr @ logged ag (scenario_banner sc) @ [Clock, Open])
                = (None, (ss, ag0, tr0))"
    and main: "main_phase E sc (ss, ag0, tr0) = (None, (ss @ ms, ag1, tr1))"
    and k: "k < length ms" "critical (step (ms ! k))" "status (ms ! k) \<noteq> ''passed''"
    and td: "teardown_phase E sc (ss @ ms, ag1, tr1) = (None, (rs, ag2, tr2))"
  shows "map step ms = take (Suc k) (steps sc) \<and>
         (\<exists>tr'. execute_in_order E (take (Suc k) (steps sc))
                  (ag0, tr0 @ logged ag0 [(''Running test steps...'', ''TEST'')])
                  = (Inr ms, ag1, tr') \<and>
                tr1 = tr' @ logged ag1 [(''Critical step failed, stopping scenario'', ''ERROR'')]) \<and>
         (\<exists>ts. execute_in_order E (teardown_steps sc)
                  (ag1, tr1 @ (if teardown_steps sc = [] then []
                               else logged ag1 [(''Running teardown steps...'', ''TEARDOWN'')]))
                  = (Inr ts, ag2, tr2) \<and>
               map step ts = teardown_steps sc \<and>
               step_results result = ss @ ms @ ts) \<and>
         s' = (ag2\<lparr>test_results := test_results ag2 @ [result]\<rparr>,
               tr2 @ [Close, Clock] @ logged ag2 (scenario_summary E result))"
proof -
  from main_phase_cases[OF main]
  have m: "run_main E (steps sc) ([], ag0, tr0 @ logged ag0 [(''Running test steps...'', ''TEST'')])
             = (None, (ms, ag1, tr1))" by auto
  from run_main_stops[OF m k] obtain tr' where
    len: "length ms = Suc k"
    and ex: "execute_in_order E (take (Suc k) (steps sc))
               (ag0, tr0 @ logged ag0 [(''Running test steps...'', ''TEST'')]) = (Inr ms, ag1, tr')"
    and lg: "log E ag1 ''Critical step failed, stopping scenario'' ''ERROR'' tr' = (None, tr1)"
    by blast
  have a: "map step ms = take (Suc k) (steps sc)"
    using execute_in_order_steps[OF ex] .
  have b: "tr1 = tr' @ logged ag1 [(''Critical step failed, stopping scenario'', ''ERROR'')]"
    using log_trace[OF lg] .
  have "\<exists>ts. execute_in_order E (teardown_steps sc)
                  (ag1, tr1 @ (if teardown_steps sc = [] then []
                               else logged ag1 [(''Running teardown steps...'', ''TEARDOWN'')]))
                  = (Inr ts, ag2, tr2) \<and> rs = ss @ ms @ ts"
  proof (cases "teardown_steps sc = []")
    case True
    with td show ?thesis by (simp add: teardown_phase_def)
  next
    case False
    with teardown_phase_cases[OF td] obtain ts where
      "rs = (ss @ ms) @ ts"
      "run_teardown E (teardown_steps sc)
         ([], ag1, tr1 @ logged ag1 [(''Running teardown steps...'', ''TEARDOWN'')])
         = (None, (ts, ag2, tr2))"
      by auto
    with run_teardown_all[OF this(2)] False show ?thesis by simp
  qed
  then obtain ts where
    c: "execute_in_order E (teardown_steps sc)
          (ag1, tr1 @ (if teardown_steps sc = [] then []
                       else logged ag1 [(''Running teardown steps...'', ''TEARDOWN'')]))
          = (Inr ts, ag2, tr2)"
    and rs: "rs = ss @ ms @ ts" by blast
  have d: "map step ts = teardown_steps sc" using execute_in_order_steps[OF c] .
  have "scenario_body E sc (ag, tr @ logged ag (scenario_banner sc) @ [Clock, Open])
          = (None, (rs, ag2, tr2))"
    by (simp add: scenario_body_def scenario_try_def stp main td)
  with run_scenario_result[OF run]
  have e: "step_results result = rs"
    and f: "s' = (ag2\<lparr>test_results := test_results ag2 @ [result]\<rparr>,
                  tr2 @ [Close, Clock] @ logged ag2 (scenario_summary E result))"
    by auto
  from a ex b c d e f rs show ?thesis by blast
qed

theorem critical_main_failure_stops_main_steps_witness:
  "steps main_fails = [step_buy, step_check] \<and>
   teardown_steps main_fails = [step_cleanup] \<and>
   map step (step_results (projr (fst
      (run_scenario (scripted click_fails) main_fails (new_agent, [])))))
     = [step_buy, step_cleanup] \<and>
   calls (snd (snd (run_scenario (scripted click_fails) main_fails (new_agent, []))))
     = [(''browser_click'', [(''selector'', AStr ''#buy'')]), (''browser_screenshot'', []),
        (''browser_wait'', [(''selector'', ANone), (''timeout'', AInt 1000)])]"
proof -
  define R where "R = projr (fst (run_scenario (scripted click_fails) main_fails (new_agent, [])))"
  define S where "S = snd (run_scenario (scripted click_fails) main_fails (new_agent, []))"
  define T0 where "T0 = [] @ logged new_agent (scenario_banner main_fails) @ [Clock, Open]"
  define M where "M = snd (main_phase (scripted click_fails) main_fails ([], new_agent, T0))"
  define T where "T = snd (teardown_phase (scripted click_fails) main_fails
       ([] @ fst M, fst (snd M), snd (snd M)))"
  have run: "run_scenario (scripted click_fails) main_fails (new_agent, []) = (Inr R, S)"
    unfolding R_def S_def by (simp add: eval)
  have stp: "setup_phase (scripted click_fails) main_fails
       ([], new_agent, [] @ logged new_agent (scenario_banner main_fails) @ [Clock, Open])
       = (None, ([], new_agent, T0))"
    unfolding T0_def by (simp add: setup_phase_def main_fails_def test_scenario_def)
  have main: "main_phase (scripted click_fails) main_fails ([], new_agent, T0)
       = (None, ([] @ fst M, fst (snd M), snd (snd M)))"
    unfolding M_def T0_def by (simp add: eval logged_def)
  have k: "0 < length (fst M)" "critical (step (fst M ! 0))" "status (fst M ! 0) \<noteq> ''passed''"
    unfolding M_def T0_def by (simp_all add: eval logged_def)
  have td: "teardown_phase (scripted click_fails) main_fails
       ([] @ fst M, fst (snd M), snd (snd M)) = (None, (fst T, fst (snd T), snd (snd T)))"
    unfolding T_def M_def T0_def by (simp add: eval logged_def)
  have sts: "steps main_fails = [step_buy, step_check]"
    "teardown_steps main_fails = [step_cleanup]"
    by (simp_all add: eval)
  from critical_main_failure_stops_main_steps[OF run stp main k td]
  have "map step (fst M) = take (Suc 0) (steps main_fails)"
    and "\<exists>ts. map step ts = teardown_steps main_fails \<and> step_results R = [] @ fst M @ ts"
    by auto
  then have "map step (step_results R) = [step_buy, step_cleanup]"
    using sts by auto
  moreover have "calls (snd S)
     = [(''browser_click'', [(''selector'', AStr ''#buy'')]), (''browser_screenshot'', []),
        (''browser_wait'', [(''selector'', ANone), (''timeout'', AInt 1000)])]"
    unfolding S_def by (simp add: eval calls_def)
  ultimately show ?thesis using sts unfolding R_def S_def by simp
qed

text \<open>
  Claim C3 as stated fails: the critical main step fails and has its result, the log line
  that announces the stop (the eighth line of the run) cannot be printed, the handler of
  \<open>run_scenario\<close> catches that exception, and the teardown step is never executed. The
  run completes with the result of the one main step, and the only tool invocations are
  the click and the screenshot taken on its failure.
\<close>

theorem critical_main_failure_teardown_skipped:
  "steps main_fails = [step_buy, step_check] \<and>
   teardown_steps main_fails = [step_cleanup] \<and>
   critical step_buy \<and>
   fst (run_scenario (stdout_blocks_at 7 (scripted click_fails)) main_fails (new_agent, [])) =
     Inr \<lparr>scenario = main_fails, result_status = ''failed'',
          step_results =
            [\<lparr>step = step_buy, status = ''failed'',
              message = ''Error: no element matches #buy'', screenshot = [],
              start_time = Some 2, end_time = Some 5, duration = 3 / 1000000,
              actual_value = PNone, error_trace = []\<rparr>],
          result_start_time = Some 0, result_end_time = Some 7,
          result_duration = 7 / 1000000, error_message = []\<rparr> \<and>
   calls (snd (snd
      (run_scenario (stdout_blocks_at 7 (scripted click_fails)) main_fails (new_agent, []))))
     = [(''browser_click'', [(''selector'', AStr ''#buy'')]), (''browser_screenshot'', [])]"
  by (simp add: eval calls_def)

subsection \<open>A critical setup step that does not pass\<close>

text \<open>
  Claim C2, as the code has it. When a setup step is critical and its result is not
  \<open>passed\<close>, the setup loop raises there: the scenario's step results are exactly the
  results of executing, in order, the setup steps up to and including that one; no main
  step and no teardown step is executed (the handler logs the exception and the session
  is closed right after), and the scenario's status is derived from those results alone:
  \<open>error\<close> if one of them is an error, \<open>failed\<close> otherwise.
\<close>

theorem critical_setup_failure_aborts:
  assumes run: "run_scenario E sc (ag, tr) = (Inr result, s')"
    and stp: "setup_phase E sc ([], ag, tr @ logged ag (scenario_banner sc) @ [Clock, Open])
                = (x, (ss, ag0, tr0))"
    and k: "k < length ss" "critical (step (ss ! k))" "status (ss ! k) \<noteq> ''passed''"
  shows "x = Some (''Critical setup step failed: '' @ name (setup_steps sc ! k)) \<and>
         map step ss = take (Suc k) (setup_steps sc) \<and>
         execute_in_order E (take (Suc k) (setup_steps sc))
           (ag, tr @ logged ag (scenario_banner sc) @ [Clock, Open]
                @ logged ag [(''Running setup steps...'', ''SETUP'')]) = (Inr ss, ag0, tr0) \<and>
         step_results result = ss \<and>
         s' = (ag0\<lparr>test_results := test_results ag0 @ [result]\<rparr>,
               tr0 @ logged ag0
                       [(''Scenario error: Critical setup step failed: ''
                           @ name (setup_steps sc ! k), ''ERROR'')]
                   @ [Close, Clock] @ logged ag0 (scenario_summary E result)) \<and>
         result_status result =
           (if ''error'' \<in> set (map status ss) then ''error'' else ''failed'')"
proof -
  from setup_phase_cases[OF stp] k(1)
  have su: "run_setup E (setup_steps sc)
              ([], ag, (tr @ logged ag (scenario_banner sc) @ [Clock, Open])
                        @ logged ag [(''Running setup steps...'', ''SETUP'')])
              = (x, (ss, ag0, tr0))" by auto
  from run_setup_stops[OF su k]
  have len: "length ss = Suc k"
    and x: "x = Some (''Critical setup step failed: '' @ name (step (ss ! k)))"
    and ex: "execute_in_order E (take (Suc k) (setup_steps sc))
           (ag, (tr @ logged ag (scenario_banner sc) @ [Clock, Open])
                @ logged ag [(''Running setup steps...'', ''SETUP'')]) = (Inr ss, ag0, tr0)"
    by simp_all
  have a: "map step ss = take (Suc k) (setup_steps sc)"
    using execute_in_order_steps[OF ex] .
  have "map step ss ! k = take (Suc k) (setup_steps sc) ! k" by (simp only: a)
  with k(1) have "step (ss ! k) = setup_steps sc ! k" by simp
  with x have x': "x = Some (''Critical setup step failed: '' @ name (setup_steps sc ! k))"
    by simp
  define msg where "msg = ''Critical setup step failed: '' @ name (setup_steps sc ! k)"
  obtain y tr3 where l: "log E ag0 (''Scenario error: '' @ msg) ''ERROR'' tr0 = (y, tr3)"
    by (cases "log E ag0 (''Scenario error: '' @ msg) ''ERROR'' tr0")
  have body: "scenario_body E sc (ag, tr @ logged ag (scenario_banner sc) @ [Clock, Open])
                = (y, (ss, ag0, tr3))"
    using l by (simp add: scenario_body_def scenario_try_def stp x' msg_def)
  with run_scenario_result[OF run]
  have b: "step_results result = ss"
    and c: "s' = (ag0\<lparr>test_results := test_results ag0 @ [result]\<rparr>,
                  tr3 @ [Close, Clock] @ logged ag0 (scenario_summary E result))"
    and st: "result_status result = scenario_status ss" by auto
  have tr3: "tr3 = tr0 @ logged ag0 [(''Scenario error: '' @ msg, ''ERROR'')]"
    using log_trace[OF l] .
  have "ss ! k \<in> set ss" using k(1) by simp
  from run_setup_statuses[OF su this] k(3)
  have "status (ss ! k) = ''failed'' \<or> status (ss ! k) = ''error''" by auto
  moreover have "status (ss ! k) \<in> set (map status ss)" using k(1) by simp
  ultimately have "''failed'' \<in> set (map status ss) \<or> ''error'' \<in> set (map status ss)"
    by auto
  then have d: "aggregate_status (map status ss) =
       (if ''error'' \<in> set (map status ss) then ''error'' else ''failed'')"
    by (auto simp: aggregate_status_def)
  from x' a ex b c tr3 st d show ?thesis
    by (simp add: scenario_status_aggregate msg_def)
qed

theorem critical_setup_failure_aborts_witness:
  "map step (step_results (projr (fst
      (run_scenario (scripted click_fails_screenshot_raises) setup_fails (new_agent, [])))))
     = [step_buy] \<and>
   result_status (projr (fst
      (run_scenario (scripted click_fails_screenshot_raises) setup_fails (new_agent, []))))
     = ''error''"
proof -
  define R where "R = projr (fst
      (run_scenario (scripted click_fails_screenshot_raises) setup_fails (new_agent, [])))"
  define S where "S = snd
      (run_scenario (scripted click_fails_screenshot_raises) setup_fails (new_agent, []))"
  define X where "X = setup_phase (scripted click_fails_screenshot_raises) setup_fails
      ([], new_agent, [] @ logged new_agent (scenario_banner setup_fails) @ [Clock, Open])"
  have run: "run_scenario (scripted click_fails_screenshot_raises) setup_fails (new_agent, [])
      = (Inr R, S)"
    unfolding R_def S_def by (simp add: eval)
  have stp: "setup_phase (scripted click_fails_screenshot_raises) setup_fails
      ([], new_agent, [] @ logged new_agent (scenario_banner setup_fails) @ [Clock, Open])
      = (fst X, (fst (snd X), fst (snd (snd X)), snd (snd (snd X))))"
    unfolding X_def by simp
  have k: "0 < length (fst (snd X))" "critical (step (fst (snd X) ! 0))"
    "status (fst (snd X) ! 0) \<noteq> ''passed''"
    unfolding X_def by (simp_all add: eval logged_def)
  have sts: "setup_steps setup_fails = [step_buy]" "map status (fst (snd X)) = [''error'']"
    unfolding X_def by (simp_all add: eval logged_def)
  from critical_setup_failure_aborts[OF run stp k] sts show ?thesis
    unfolding R_def by simp
qed

text \<open>
  Claim C2 as stated fails: the critical setup step fails without an error, the scenario
  is aborted after it, and its recorded status is \<open>failed\<close>, not \<open>error\<close>.
\<close>

theorem critical_setup_failure_status_failed:
  "setup_steps setup_fails = [step_buy] \<and> critical step_buy \<and>
   fst (run_scenario (scripted click_fails) setup_fails (new_agent, [])) =
     Inr \<lparr>scenario = setup_fails, result_status = ''failed'',
          step_results =
            [\<lparr>step = step_buy, status = ''failed'',
              message = ''Error: no element matches #buy'', screenshot = [],
              start_time = Some 2, end_time = Some 5, duration = 3 / 1000000,
              actual_value = PNone, error_trace = []\<rparr>],
          result_start_time = Some 0, result_end_time = Some 7,
          result_duration = 7 / 1000000, error_message = []\<rparr>"
  by (simp add: eval)

section \<open>The suite runner\<close>

lemma run_scenario_connect_fails:
  "logs E ag (scenario_banner sc) tr = (None, tr1) \<Longrightarrow> connect E (tr1 @ [Clock]) = Some e \<Longrightarrow>
   run_scenario E sc (ag, tr) = (Inl e, ag, tr1 @ [Clock, Open])"
  by (simp add: run_scenario_def now_def)

lemma run_scenarios_append:
  "run_scenarios E (xs @ ys) acc s =
     (case run_scenarios E xs acc s of
        (Inl e, s') \<Rightarrow> (Inl e, s')
      | (Inr rs, s') \<Rightarrow> run_scenarios E ys rs s')"
  by (induction xs arbitrary: acc s) (auto split: prod.splits sum.splits)

text \<open>
  Claim C1, as the code has it. The session is opened outside the \<open>try\<close> of
  \<open>run_scenario\<close>. When it cannot be opened or initialized, the exception leaves
  \<open>run_scenario\<close>: no result is produced for the scenario and none is appended to the
  agent's results. \<open>run_suite\<close> does not catch it either: after the scenarios before it
  have run, the suite run ends with that exception, returns no list of results, runs
  none of the remaining scenarios and generates no report.
\<close>

theorem session_failure_propagates:
  assumes "logs E ag0 (suite_banner (suite\<lparr>scenarios := pre @ sc # rest\<rparr>)) tr00 = (None, tr01)"
    and "run_scenarios E pre [] (ag0, tr01) = (Inr rs, (ag, tr))"
    and "logs E ag (scenario_banner sc) tr = (None, tr1)"
    and "connect E (tr1 @ [Clock]) = Some e"
  shows "run_scenario E sc (ag, tr) = (Inl e, ag, tr1 @ [Clock, Open]) \<and>
         run_suite E (suite\<lparr>scenarios := pre @ sc # rest\<rparr>) (ag0, tr00)
           = (Inl e, ag, tr1 @ [Clock, Open])"
  using assms
  by (simp add: run_scenario_connect_fails run_suite_def run_scenarios_append)

theorem session_failure_propagates_witness:
  "fst (run_suite refuses_second (test_suite ''Nightly'' [main_fails, setup_fails, main_fails])
          (new_agent, [])) = Inl ''Connection refused'' \<and>
   length (test_results (fst (snd
      (run_suite refuses_second (test_suite ''Nightly'' [main_fails, setup_fails, main_fails])
          (new_agent, []))))) = 1"
proof -
  define B where "B = snd (logs refuses_second new_agent
      (suite_banner (test_suite ''Nightly'' [main_fails, setup_fails, main_fails])) [])"
  define P where "P = run_scenarios refuses_second [main_fails] [] (new_agent, B)"
  define T1 where "T1 = snd (logs refuses_second (fst (snd P)) (scenario_banner setup_fails)
      (snd (snd P)))"
  have su: "(test_suite ''Nightly'' [])\<lparr>scenarios := [main_fails] @ setup_fails # [main_fails]\<rparr>
      = test_suite ''Nightly'' [main_fails, setup_fails, main_fails]"
    by (simp add: test_suite_def)
  have sb: "logs refuses_second new_agent
      (suite_banner ((test_suite ''Nightly'' [])
         \<lparr>scenarios := [main_fails] @ setup_fails # [main_fails]\<rparr>)) [] = (None, B)"
    unfolding su B_def by (simp add: eval)
  have pre: "run_scenarios refuses_second [main_fails] [] (new_agent, B)
      = (Inr (projr (fst P)), (fst (snd P), snd (snd P)))"
    unfolding P_def B_def by (simp add: eval)
  have bn: "logs refuses_second (fst (snd P)) (scenario_banner setup_fails) (snd (snd P))
      = (None, T1)"
    unfolding T1_def P_def B_def by (simp add: eval)
  have c: "connect refuses_second (T1 @ [Clock]) = Some ''Connection refused''"
    unfolding T1_def P_def B_def by (simp add: eval)
  have n: "length (test_results (fst (snd P))) = 1"
    unfolding P_def B_def by (simp add: eval)
  from session_failure_propagates[OF sb pre bn c]
  have "run_suite refuses_second (test_suite ''Nightly'' [main_fails, setup_fails, main_fails])
      (new_agent, []) = (Inl ''Connection refused'', fst (snd P), T1 @ [Clock, Open])"
    unfolding su by simp
  with n show ?thesis by simp
qed

text \<open>
  Claim C1 as stated fails: when the session cannot be opened for the first scenario, the
  suite run ends with the exception right after the banners of the suite and of that
  scenario; the agent holds no result and the second scenario is never started.
\<close>

theorem session_failure_crashes_suite:
  "run_suite refuses (test_suite ''Nightly'' [setup_fails, main_fails]) (new_agent, [])
     = (Inl ''Connection refused'', new_agent,
        logged new_agent (suite_banner (test_suite ''Nightly'' [setup_fails, main_fails]))
          @ logged new_agent (scenario_banner setup_fails) @ [Clock, Open])"
  by (simp add: eval logged_def)

end
